theory Spec2Isabelle
  imports Complex_Main
begin

section \<open>Python strings\<close>

text \<open>
  The scrapers work on Python \<^verbatim>\<open>str\<close> values. A string is modelled as a \<^typ>\<open>string\<close>
  whose characters are read as the code points 0..255; everything the extractors test
  (labels, keywords, the comma, the dollar sign, digits) lies in that range.

  \<^verbatim>\<open>str.strip()\<close> and the regular expression class \<^verbatim>\<open>\s\<close> both use Python's Unicode
  whitespace test; below 256 it holds for the code points listed in \<open>isspace\<close>.
\<close>

definition isspace :: "char \<Rightarrow> bool" where
  "isspace c = (c \<in> set [CHR 0x09, CHR 0x0A, CHR 0x0B, CHR 0x0C, CHR 0x0D,
                          CHR 0x1C, CHR 0x1D, CHR 0x1E, CHR 0x1F, CHR '' '',
                          CHR 0x85, CHR 0xA0])"

text \<open>\<^verbatim>\<open>s.strip()\<close>: whitespace removed at both ends.\<close>

definition strip :: "string \<Rightarrow> string" where
  "strip s = rev (dropWhile isspace (rev (dropWhile isspace s)))"

text \<open>\<^verbatim>\<open>s.startswith(p)\<close>.\<close>

fun startswith :: "string \<Rightarrow> string \<Rightarrow> bool" where
  "startswith s [] = True"
| "startswith [] (p # ps) = False"
| "startswith (c # cs) (p # ps) = (c = p \<and> startswith cs ps)"

text \<open>\<^verbatim>\<open>sub in s\<close> on strings: \<open>sub\<close> occurs in \<open>s\<close> as a contiguous run.\<close>

fun py_in :: "string \<Rightarrow> string \<Rightarrow> bool" where
  "py_in sub [] = (sub = [])"
| "py_in sub (c # cs) = (startswith (c # cs) sub \<or> py_in sub cs)"

text \<open>
  \<^verbatim>\<open>s.split(sep)\<close> for a one-character separator: every occurrence of the separator
  ends a segment, so the result has one segment more than \<open>s\<close> has separators.
\<close>

fun split :: "string \<Rightarrow> char \<Rightarrow> string list" where
  "split [] sep = [[]]"
| "split (c # cs) sep =
     (if c = sep then [] # split cs sep
      else (case split cs sep of [] \<Rightarrow> [[c]] | w # ws \<Rightarrow> (c # w) # ws))"

text \<open>\<^verbatim>\<open>s.lower()\<close>: below 256 the upper-case letters are A-Z and 0xC0-0xDE without 0xD7.\<close>

definition lower_char :: "char \<Rightarrow> char" where
  "lower_char c =
     (let n = (of_char c :: nat)
      in if (65 \<le> n \<and> n \<le> 90) \<or> (192 \<le> n \<and> n \<le> 222 \<and> n \<noteq> 215)
         then char_of (n + 32) else c)"

definition lower :: "string \<Rightarrow> string" where
  "lower s = map lower_char s"

text \<open>\<^verbatim>\<open>str(n)\<close> for a non-negative integer: its decimal digits.\<close>

fun str_nat :: "nat \<Rightarrow> string" where
  "str_nat n = (if n < 10 then [char_of (48 + n)]
                else str_nat (n div 10) @ [char_of (48 + n mod 10)])"

declare str_nat.simps [simp del]

text \<open>\<^verbatim>\<open>x.get('')\<close> on a selector result: the first match, or the default.\<close>

definition get_or :: "'a option \<Rightarrow> 'a \<Rightarrow> 'a" where
  "get_or r d = (case r of None \<Rightarrow> d | Some v \<Rightarrow> v)"

section \<open>Exceptions\<close>

text \<open>
  An exception is a value: its class, as far as the code distinguishes classes, and the
  text \<^verbatim>\<open>str(e)\<close> gives. \<open>Exception\<close> stands for every other subclass of Python's
  \<^verbatim>\<open>Exception\<close>. A computation that may raise returns \<open>Inl\<close> of the exception.
\<close>

datatype py_exception = ValueError string | TypeError string | Exception string

fun str_exc :: "py_exception \<Rightarrow> string" where
  "str_exc (ValueError m) = m"
| "str_exc (TypeError m) = m"
| "str_exc (Exception m) = m"

text \<open>Sequencing: the first exception raised ends the computation.\<close>

definition then_q :: "py_exception + 'a \<Rightarrow> ('a \<Rightarrow> py_exception + 'b) \<Rightarrow> py_exception + 'b" where
  "then_q m f = (case m of Inl e \<Rightarrow> Inl e | Inr v \<Rightarrow> f v)"

section \<open>The amount normaliser\<close>

text \<open>
  \<^verbatim>\<open>float(s)\<close> on a string, after the language reference:
  \<^verbatim>\<open>
  digitpart   ::= digit (["_"] digit)*
  number      ::= [digitpart] "." digitpart | digitpart ["."]
  exponent    ::= ("e" | "E") [sign] digitpart
  floatnumber ::= number [exponent]
  floatvalue  ::= [sign] (floatnumber | "inf" | "infinity" | "nan")
  \<close>
  with surrounding whitespace ignored, the three words in any letter case, and
  \<^verbatim>\<open>ValueError\<close> for every other string. The result keeps the exact decimal value that
  was written; the rounding of that value to a binary64 is not modelled (a whole number
  below \<open>2^53\<close> such as 1234567 is its own binary64).
\<close>

datatype pyfloat = Finite rat | PosInf | NegInf | NaN

definition isdigit :: "char \<Rightarrow> bool" where
  "isdigit c = (48 \<le> (of_char c :: nat) \<and> (of_char c :: nat) \<le> 57)"

definition digit_value :: "char \<Rightarrow> nat" where
  "digit_value c = of_char c - 48"

definition digits_value :: "string \<Rightarrow> nat" where
  "digits_value ds = foldl (\<lambda>a d. 10 * a + digit_value d) 0 ds"

text \<open>The rest of a digit part, after one digit: more digits, each after at most one underscore.\<close>

fun digits_tail :: "string \<Rightarrow> string \<times> string" where
  "digits_tail [] = ([], [])"
| "digits_tail [c] = (if isdigit c then ([c], []) else ([], [c]))"
| "digits_tail (c # d # cs) =
     (if isdigit c then (let r = digits_tail (d # cs) in (c # fst r, snd r))
      else if c = CHR ''_'' \<and> isdigit d then (let r = digits_tail cs in (d # fst r, snd r))
      else ([], c # d # cs))"

definition digitpart :: "string \<Rightarrow> (string \<times> string) option" where
  "digitpart s =
     (case s of
        [] \<Rightarrow> None
      | c # cs \<Rightarrow> if isdigit c then (let r = digits_tail cs in Some (c # fst r, snd r))
                 else None)"

text \<open>A number: the digits before the point, the digits after it, and the unread rest.\<close>

definition after_point :: "string \<Rightarrow> string option" where
  "after_point s = (case s of [] \<Rightarrow> None | c # r \<Rightarrow> if c = CHR ''.'' then Some r else None)"

definition number :: "string \<Rightarrow> (string \<times> string \<times> string) option" where
  "number s =
     (case digitpart s of
        Some (ip, r) \<Rightarrow>
          (case after_point r of
             None \<Rightarrow> Some (ip, [], r)
           | Some r' \<Rightarrow>
               (case digitpart r' of
                  None \<Rightarrow> Some (ip, [], r')
                | Some (fp, r'') \<Rightarrow> Some (ip, fp, r'')))
      | None \<Rightarrow>
          (case after_point s of
             None \<Rightarrow> None
           | Some r' \<Rightarrow>
               (case digitpart r' of
                  None \<Rightarrow> None
                | Some (fp, r'') \<Rightarrow> Some ([], fp, r''))))"

definition exponent :: "string \<Rightarrow> (int \<times> string) option" where
  "exponent s =
     (case s of
        [] \<Rightarrow> None
      | c # r \<Rightarrow>
          if c = CHR ''e'' \<or> c = CHR ''E'' then
            (case r of
               [] \<Rightarrow> None
             | g # r' \<Rightarrow>
                 if g = CHR ''+'' then
                   map_option (\<lambda>(ds, rest). (int (digits_value ds), rest)) (digitpart r')
                 else if g = CHR ''-'' then
                   map_option (\<lambda>(ds, rest). (- int (digits_value ds), rest)) (digitpart r')
                 else
                   map_option (\<lambda>(ds, rest). (int (digits_value ds), rest)) (digitpart r))
          else None)"

definition scale10 :: "rat \<Rightarrow> int \<Rightarrow> rat" where
  "scale10 m e = (if 0 \<le> e then m * 10 ^ nat e else m / 10 ^ nat (- e))"

definition floatnumber :: "string \<Rightarrow> rat option" where
  "floatnumber s =
     (case number s of
        None \<Rightarrow> None
      | Some (ip, fp, r) \<Rightarrow>
          (let m = of_nat (digits_value (ip @ fp)) / 10 ^ length fp
           in if r = [] then Some m
              else (case exponent r of
                      None \<Rightarrow> None
                    | Some (e, rest) \<Rightarrow> if rest = [] then Some (scale10 m e) else None)))"

definition absfloatvalue :: "string \<Rightarrow> pyfloat option" where
  "absfloatvalue s =
     (if lower s = ''inf'' \<or> lower s = ''infinity'' then Some PosInf
      else if lower s = ''nan'' then Some NaN
      else map_option Finite (floatnumber s))"

fun negate :: "pyfloat \<Rightarrow> pyfloat" where
  "negate (Finite q) = Finite (- q)"
| "negate PosInf = NegInf"
| "negate NegInf = PosInf"
| "negate NaN = NaN"

definition floatvalue :: "string \<Rightarrow> pyfloat option" where
  "floatvalue s =
     (case s of
        [] \<Rightarrow> None
      | c # r \<Rightarrow>
          if c = CHR ''-'' then map_option negate (absfloatvalue r)
          else if c = CHR ''+'' then absfloatvalue r
          else absfloatvalue s)"

definition py_float :: "string \<Rightarrow> py_exception + pyfloat" where
  "py_float s =
     (case floatvalue (strip s) of
        Some v \<Rightarrow> Inr v
      | None \<Rightarrow> Inl (ValueError (''could not convert string to float: '' @ s)))"

text \<open>\<^verbatim>\<open>re.sub(r'[$,\s]', '', s)\<close>: every dollar sign, comma and whitespace character removed.\<close>

definition re_sub_amount :: "string \<Rightarrow> string" where
  "re_sub_amount s = filter (\<lambda>c. c \<noteq> CHR ''$'' \<and> c \<noteq> CHR '','' \<and> \<not> isspace c) s"

text \<open>
  \<^verbatim>\<open>parse_amount\<close> of \<^verbatim>\<open>parse_local_html.py\<close> and \<^verbatim>\<open>_parse_amount\<close> of
  \<^verbatim>\<open>propublica_scraper.py\<close> have the same body:
  \<^verbatim>\<open>
  if not amount_str: return None
  try:
      cleaned = re.sub(r'[$,\s]', '', amount_str)
      return float(cleaned)
  except (ValueError, TypeError):
      return None
  \<close>
  The handler catches two classes; any other exception would leave the function.
\<close>

definition parse_amount :: "string \<Rightarrow> py_exception + pyfloat option" where
  "parse_amount amount_str =
     (if amount_str = [] then Inr None
      else (case py_float (re_sub_amount amount_str) of
              Inr v \<Rightarrow> Inr (Some v)
            | Inl (ValueError m) \<Rightarrow> Inr None
            | Inl (TypeError m) \<Rightarrow> Inr None
            | Inl (Exception m) \<Rightarrow> Inl (Exception m)))"

section \<open>Fragments, as the query adapter shows them\<close>

text \<open>
  The HTML parser and its selector engine are outside the scrapers. A fragment is
  modelled by the results of the queries the extractors make on it, each either a raised
  exception or the value returned (\<open>None\<close> where \<^verbatim>\<open>.get()\<close> finds no node). Chained
  queries are one field. Reads whose result the code never uses (\<^verbatim>\<open>labels\<close>,
  \<^verbatim>\<open>value_divs\<close> and \<^verbatim>\<open>detail_blocks\<close> of the spider) are left out.
\<close>

record block =
  label_text :: "py_exception + string option"
  value_text :: "py_exception + string option"

record item =
  recipient_text :: "py_exception + string option"
  recipient_href :: "py_exception + string option"
  flex_container :: "py_exception + block list list"
  all_values :: "py_exception + string list"

text \<open>
  \<open>label_text\<close> is \<^verbatim>\<open>block.css('div.f7::text').get()\<close>, \<open>value_text\<close> is
  \<^verbatim>\<open>block.css('div.f5.tiempos-text::text').get()\<close>; \<open>recipient_text\<close> and
  \<open>recipient_href\<close> are the text and the \<^verbatim>\<open>href\<close> of
  \<^verbatim>\<open>item.css('div.tiempos-text.lh-title a')\<close>; \<open>flex_container\<close> holds the nodes
  \<^verbatim>\<open>item.css('div.flex.flex-wrap')\<close> matched, each with its \<^verbatim>\<open>div[class*="w-"]\<close> blocks;
  \<open>all_values\<close> is \<^verbatim>\<open>item.css('div.f5.tiempos-text::text').getall()\<close>.

  The four local variables of the extractors, and the record they end up in:
\<close>

record fields =
  location :: string
  loan_status :: string
  loan_amount :: string
  date_approved :: string

record loan = fields +
  index :: nat
  recipient :: string
  detail_url :: string
  loan_amount_numeric :: "pyfloat option"

record spider_loan = loan +
  scraped_at :: string

definition initial_fields :: fields where
  "initial_fields = \<lparr>location = [], loan_status = [], loan_amount = [], date_approved = []\<rparr>"

subsection \<open>The structural tier\<close>

text \<open>
  The body of \<^verbatim>\<open>for block in flex_container.css('div[class*="w-"]')\<close>, the same in both
  scrapers: the label decides which variable the block's value is assigned to.
\<close>

definition detail_block :: "block \<Rightarrow> fields \<Rightarrow> py_exception + fields" where
  "detail_block block fs =
     then_q (label_text block) (\<lambda>l.
     then_q (value_text block) (\<lambda>v.
       let label = strip (get_or l []);
           val = get_or v [];
           val = (if val \<noteq> [] then strip val else val)
       in Inr (if py_in ''Location'' label then fs\<lparr>location := val\<rparr>
               else if py_in ''Loan Status'' label then fs\<lparr>loan_status := val\<rparr>
               else if py_in ''Loan Amount'' label then fs\<lparr>loan_amount := val\<rparr>
               else if py_in ''Date Approved'' label then fs\<lparr>date_approved := val\<rparr>
               else fs)))"

fun detail_blocks :: "block list \<Rightarrow> fields \<Rightarrow> py_exception + fields" where
  "detail_blocks [] fs = Inr fs"
| "detail_blocks (block # rest) fs =
     (case detail_block block fs of
        Inl e \<Rightarrow> Inl e
      | Inr fs' \<Rightarrow> detail_blocks rest fs')"

text \<open>\<^verbatim>\<open>if flex_container:\<close> and the loop over the blocks of the matched containers.\<close>

definition flex_details :: "item \<Rightarrow> py_exception + fields" where
  "flex_details item =
     then_q (flex_container item) (\<lambda>fc.
       if fc \<noteq> [] then detail_blocks (concat fc) initial_fields else Inr initial_fields)"

text \<open>
  The four variables by name, and which of them a label assigns: the tests of the
  \<^verbatim>\<open>if\<close>/\<^verbatim>\<open>elif\<close> chain of the block loop, in their order.
\<close>

datatype field_name = Location | Loan_Status | Loan_Amount | Date_Approved

definition field_value :: "field_name \<Rightarrow> 'a fields_scheme \<Rightarrow> string" where
  "field_value f r =
     (case f of Location \<Rightarrow> location r | Loan_Status \<Rightarrow> loan_status r
      | Loan_Amount \<Rightarrow> loan_amount r | Date_Approved \<Rightarrow> date_approved r)"

definition label_field :: "string \<Rightarrow> field_name option" where
  "label_field label =
     (if py_in ''Location'' label then Some Location
      else if py_in ''Loan Status'' label then Some Loan_Status
      else if py_in ''Loan Amount'' label then Some Loan_Amount
      else if py_in ''Date Approved'' label then Some Date_Approved
      else None)"

subsection \<open>The heuristic tier\<close>

text \<open>\<^verbatim>\<open>[v.strip() for v in all_values if v.strip()]\<close>\<close>

definition stripped_values :: "string list \<Rightarrow> string list" where
  "stripped_values vs = map strip (filter (\<lambda>v. strip v \<noteq> []) vs)"

definition month_tokens :: "string list" where
  "month_tokens = [''Jan'', ''Feb'', ''March'', ''April'', ''May'', ''June'',
                   ''July'', ''Aug'', ''Sept'', ''Oct'', ''Nov'', ''Dec'']"

definition status_keywords :: "string list" where
  "status_keywords = [''Forgiven'', ''Active'', ''Paid'', ''Exempt'', ''Cancelled'']"

text \<open>
  The body of \<^verbatim>\<open>for val in all_values\<close> in \<^verbatim>\<open>parse_local_html.extract_loan_data\<close>. A
  value that passes the outer test of the first branch is not offered to the later ones,
  whether or not the inner length test assigns it.
\<close>

definition alternative_step :: "string \<Rightarrow> fields \<Rightarrow> fields" where
  "alternative_step val fs =
     (if location fs = [] \<and> py_in '','' val \<and> length (split val (CHR '','')) = 2 then
        (let parts = split val (CHR '','')
         in if length (strip (parts ! 1)) = 2 then fs\<lparr>location := val\<rparr> else fs)
      else if loan_amount fs = [] \<and> startswith val ''$'' then fs\<lparr>loan_amount := val\<rparr>
      else if loan_status fs = [] \<and> list_ex (\<lambda>keyword. py_in keyword val) status_keywords
        then fs\<lparr>loan_status := val\<rparr>
      else if date_approved fs = [] \<and> list_ex (\<lambda>month. py_in month val) month_tokens
        then fs\<lparr>date_approved := val\<rparr>
      else fs)"

text \<open>The same loop body in \<^verbatim>\<open>PropublicaLoanSpider._extract_loan_data\<close>.\<close>

definition spider_alternative_step :: "string \<Rightarrow> fields \<Rightarrow> fields" where
  "spider_alternative_step val fs =
     (if location fs = [] \<and> py_in '','' val \<and> length (split val (CHR '','')) = 2 then
        fs\<lparr>location := val\<rparr>
      else if loan_amount fs = [] \<and> startswith val ''$'' then fs\<lparr>loan_amount := val\<rparr>
      else if loan_status fs = []
              \<and> (py_in ''Forgiven'' val \<or> py_in ''Active'' val \<or> py_in ''Paid'' val)
        then fs\<lparr>loan_status := val\<rparr>
      else if date_approved fs = [] \<and> list_ex (\<lambda>month. py_in month val) month_tokens
        then fs\<lparr>date_approved := val\<rparr>
      else fs)"

subsection \<open>One fragment\<close>

text \<open>
  \<^verbatim>\<open>extract_loan_data(item, index)\<close> of \<^verbatim>\<open>parse_local_html.py\<close>. The fallback is
  guarded by \<^verbatim>\<open>if not location or not loan_amount\<close>.
\<close>

definition extract_loan_data :: "item \<Rightarrow> nat \<Rightarrow> py_exception + loan" where
  "extract_loan_data item idx =
     then_q (recipient_text item) (\<lambda>rt.
     then_q (recipient_href item) (\<lambda>rh.
       let recipient_name = strip (get_or rt []);
           recipient_url = get_or rh [];
           recipient_url =
             (if recipient_url \<noteq> [] \<and> \<not> startswith recipient_url ''http''
              then ''https://projects.propublica.org'' @ recipient_url
              else recipient_url)
       in
     then_q (flex_details item) (\<lambda>fs.
     then_q (if location fs = [] \<or> loan_amount fs = [] then
               then_q (all_values item) (\<lambda>vs.
                 Inr (fold alternative_step (stripped_values vs) fs))
             else Inr fs) (\<lambda>fs.
     then_q (parse_amount (loan_amount fs)) (\<lambda>numeric.
       Inr \<lparr>location = location fs, loan_status = loan_status fs,
            loan_amount = loan_amount fs, date_approved = date_approved fs,
            index = idx + 1, recipient = recipient_name, detail_url = recipient_url,
            loan_amount_numeric = numeric\<rparr>)))))"

text \<open>
  Wall-clock readings. \<^verbatim>\<open>datetime.now().isoformat()\<close> is an input of the model: a
  clock gives the text read while the fragment with a given index is processed, and the
  text read at document level. No code path reads the clock twice at one moment.
\<close>

datatype moment = AtFragment nat | AtDocument

type_synonym clock = "moment \<Rightarrow> string"

text \<open>
  \<^verbatim>\<open>PropublicaLoanSpider._extract_loan_data(item, response, index)\<close>. \<open>urljoin\<close> is
  \<^verbatim>\<open>urllib.parse.urljoin\<close>, a parameter; it can raise \<^verbatim>\<open>ValueError\<close>. The fallback is
  guarded by \<^verbatim>\<open>if not location and not loan_amount\<close>.
\<close>

definition spider_extract_loan_data ::
  "(string \<Rightarrow> string \<Rightarrow> py_exception + string) \<Rightarrow> clock \<Rightarrow> item \<Rightarrow> string \<Rightarrow> nat
   \<Rightarrow> py_exception + spider_loan" where
  "spider_extract_loan_data urljoin now item response_url idx =
     then_q (recipient_text item) (\<lambda>rt.
     then_q (recipient_href item) (\<lambda>rh.
       let recipient_name = strip (get_or rt []);
           recipient_url = get_or rh []
       in
     then_q (if recipient_url \<noteq> [] then urljoin response_url recipient_url
             else Inr recipient_url) (\<lambda>recipient_url.
     then_q (flex_details item) (\<lambda>fs.
     then_q (if location fs = [] \<and> loan_amount fs = [] then
               then_q (all_values item) (\<lambda>vs.
                 Inr (fold spider_alternative_step (stripped_values vs) fs))
             else Inr fs) (\<lambda>fs.
     then_q (parse_amount (loan_amount fs)) (\<lambda>numeric.
       Inr \<lparr>location = location fs, loan_status = loan_status fs,
            loan_amount = loan_amount fs, date_approved = date_approved fs,
            index = idx + 1, recipient = recipient_name, detail_url = recipient_url,
            loan_amount_numeric = numeric,
            scraped_at = now (AtFragment idx)\<rparr>))))))"

section \<open>Documents and the batch loops\<close>

text \<open>
  A document is modelled by what the document-level queries return: the value of the
  search box, the text of the first heading, the fragments the primary boundary selector
  \<^verbatim>\<open>li.list.pt3\<close> locates and those of the alternative one (\<^verbatim>\<open>ul li.list\<close> in the
  parser, \<^verbatim>\<open>ul > li.list\<close> in the spider). These queries stand outside every
  \<^verbatim>\<open>try\<close> of the source and are taken to return.
\<close>

record document =
  search_query_value :: "string option"
  h1_text :: "string option"
  li_list_pt3 :: "item list"
  ul_li_list :: "item list"

text \<open>An entry of an error list: a dictionary whose keys differ from site to site.\<close>

record error_entry =
  error_type :: string
  message :: string
  timestamp :: string
  error_url :: "string option"
  status_code :: "nat option"
  suggestion :: "string option"

definition extraction_error :: "clock \<Rightarrow> nat \<Rightarrow> py_exception \<Rightarrow> error_entry" where
  "extraction_error now idx e =
     \<lparr>error_type = ''ExtractionError'',
      message = ''Failed to extract loan '' @ str_nat idx @ '': '' @ str_exc e,
      timestamp = now (AtFragment idx),
      error_url = None, status_code = None, suggestion = None\<rparr>"

text \<open>The start of such a message: the part that names the fragment.\<close>

definition failure_prefix :: "nat \<Rightarrow> string" where
  "failure_prefix idx = ''Failed to extract loan '' @ str_nat idx @ '':''"

subsection \<open>\<^verbatim>\<open>parse_local_html.parse_loan_html\<close>\<close>

record parse_result =
  search_query :: string
  result_header :: string
  total_loans :: nat
  loans :: "loan list"
  errors :: "error_entry list"
  parsed_at :: string

text \<open>
  \<^verbatim>\<open>
  for idx, item in enumerate(loan_items):
      try:
          loan_data = extract_loan_data(item, idx)
          if loan_data and loan_data.get('recipient'):
              loans.append(loan_data)
      except Exception as e:
          errors.append({'error_type': 'ExtractionError', ...})
  \<close>
  The loop runs over the enumerated fragments; its state \<open>(ls, es)\<close> is the pair of the
  lists \<^verbatim>\<open>loans\<close> and \<^verbatim>\<open>errors\<close>.
\<close>

fun loan_loop ::
  "clock \<Rightarrow> (nat \<times> item) list \<Rightarrow> loan list \<times> error_entry list
   \<Rightarrow> loan list \<times> error_entry list" where
  "loan_loop now [] (ls, es) = (ls, es)"
| "loan_loop now ((idx, item) # rest) (ls, es) =
     (case extract_loan_data item idx of
        Inr loan_data \<Rightarrow>
          if recipient loan_data \<noteq> [] then loan_loop now rest (ls @ [loan_data], es)
          else loan_loop now rest (ls, es)
      | Inl e \<Rightarrow> loan_loop now rest (ls, es @ [extraction_error now idx e]))"

text \<open>The boundary location: the alternative selector is tried when the primary finds nothing.\<close>

definition loan_items :: "document \<Rightarrow> item list" where
  "loan_items doc = (if li_list_pt3 doc = [] then ul_li_list doc else li_list_pt3 doc)"

definition parse_loan_html :: "clock \<Rightarrow> document \<Rightarrow> parse_result" where
  "parse_loan_html now doc =
     (let query = get_or (search_query_value doc) [];
          header = get_or (h1_text doc) [];
          r = loan_loop now (enumerate 0 (loan_items doc)) ([], [])
      in \<lparr>search_query = query,
          result_header = (if header \<noteq> [] then strip header else []),
          total_loans = length (fst r),
          loans = fst r,
          errors = snd r,
          parsed_at = now AtDocument\<rparr>)"

subsection \<open>\<^verbatim>\<open>PropublicaLoanSpider.parse\<close>\<close>

record http_response =
  status :: nat
  url :: string

record loan_response = http_response +
  page :: document

text \<open>
  The response handed to \<^verbatim>\<open>PropublicaLoanSpider.parse\<close> is a text response (the callback
  reads \<^verbatim>\<open>response.text\<close> and queries its selectors before any test); \<open>page\<close> is what
  the document-level queries return on it.
\<close>

text \<open>The two lists of the spider instance; \<open>spider_errors\<close> is \<^verbatim>\<open>self.errors\<close>.\<close>

record propublica_spider =
  scraped_loans :: "spider_loan list"
  spider_errors :: "error_entry list"

text \<open>\<^verbatim>\<open>__init__\<close> starts both lists empty.\<close>

definition new_spider :: propublica_spider where
  "new_spider = \<lparr>scraped_loans = [], spider_errors = []\<rparr>"

fun spider_loop ::
  "(string \<Rightarrow> string \<Rightarrow> py_exception + string) \<Rightarrow> clock \<Rightarrow> string \<Rightarrow> (nat \<times> item) list
   \<Rightarrow> propublica_spider \<times> spider_loan list \<Rightarrow> propublica_spider \<times> spider_loan list" where
  "spider_loop urljoin now response_url [] (sp, yielded) = (sp, yielded)"
| "spider_loop urljoin now response_url ((idx, item) # rest) (sp, yielded) =
     (case spider_extract_loan_data urljoin now item response_url idx of
        Inr loan_data \<Rightarrow>
          if recipient loan_data \<noteq> [] then
            spider_loop urljoin now response_url rest
              (sp\<lparr>scraped_loans := scraped_loans sp @ [loan_data]\<rparr>, yielded @ [loan_data])
          else spider_loop urljoin now response_url rest (sp, yielded)
      | Inl e \<Rightarrow>
          spider_loop urljoin now response_url rest
            (sp\<lparr>spider_errors := spider_errors sp @ [extraction_error now idx e]\<rparr>, yielded))"

text \<open>
  The generator \<^verbatim>\<open>parse\<close>: the spider after the call, and the records it yielded. An HTTP
  status of 400 or more and an empty boundary match each end the call with one entry.
\<close>

definition propublica_parse ::
  "(string \<Rightarrow> string \<Rightarrow> py_exception + string) \<Rightarrow> clock \<Rightarrow> loan_response \<Rightarrow> propublica_spider
   \<Rightarrow> propublica_spider \<times> spider_loan list" where
  "propublica_parse urljoin now response sp =
     (if status response \<ge> 400 then
        (sp\<lparr>spider_errors := spider_errors sp @
             [\<lparr>error_type = ''HTTPError'',
               message = ''HTTP '' @ str_nat (status response) @ '' error'',
               timestamp = now AtDocument,
               error_url = Some (url response),
               status_code = Some (status response),
               suggestion = None\<rparr>]\<rparr>, [])
      else if loan_items (page response) = [] then
        (sp\<lparr>spider_errors := spider_errors sp @
             [\<lparr>error_type = ''NoDataFound'',
               message = ''No loan entries found on page. The page structure may have changed.'',
               timestamp = now AtDocument,
               error_url = Some (url response),
               status_code = None,
               suggestion = None\<rparr>]\<rparr>, [])
      else spider_loop urljoin now (url response)
             (enumerate 0 (loan_items (page response))) (sp, []))"

section \<open>The response gate of \<^verbatim>\<open>WordPressSpider\<close>\<close>








section \<open>Comparing runs, and sample inputs\<close>



text \<open>The four extracted text fields of a record (or of the local variables themselves).\<close>

definition fields_of :: "'a fields_scheme \<Rightarrow> fields" where
  "fields_of r =
     \<lparr>location = location r, loan_status = loan_status r,
      loan_amount = loan_amount r, date_approved = date_approved r\<rparr>"

text \<open>
  Fragments for the worked examples: a list item with only a recipient link, one without
  a recipient, one on which the first query raises, and items with labelled detail blocks.
\<close>

definition plain_item :: "string \<Rightarrow> item" where
  "plain_item name =
     \<lparr>recipient_text = Inr (Some name), recipient_href = Inr None,
      flex_container = Inr [], all_values = Inr []\<rparr>"

definition nameless_item :: item where
  "nameless_item =
     \<lparr>recipient_text = Inr None, recipient_href = Inr None,
      flex_container = Inr [], all_values = Inr []\<rparr>"

definition faulty_item :: item where
  "faulty_item =
     \<lparr>recipient_text = Inl (Exception ''selector failure''), recipient_href = Inr None,
      flex_container = Inr [], all_values = Inr []\<rparr>"

definition labelled :: "string \<Rightarrow> string \<Rightarrow> block" where
  "labelled label val = \<lparr>label_text = Inr (Some label), value_text = Inr (Some val)\<rparr>"

text \<open>A fragment whose only labelled block is the location; the amount and status are unlabelled.\<close>

definition located_item :: item where
  "located_item =
     \<lparr>recipient_text = Inr (Some ''Acme''), recipient_href = Inr None,
      flex_container = Inr [[labelled ''Location'' ''Austin, TX'']],
      all_values = Inr [''Austin, TX'', ''$1,000'', ''Forgiven'']\<rparr>"

text \<open>A fragment with labelled location and amount, and an unlabelled status.\<close>

definition priced_item :: item where
  "priced_item =
     \<lparr>recipient_text = Inr (Some ''Acme''), recipient_href = Inr None,
      flex_container = Inr [[labelled ''Location'' ''Austin, TX'',
                             labelled ''Loan Amount'' ''$1,000'']],
      all_values = Inr [''Austin, TX'', ''$1,000'', ''Forgiven'']\<rparr>"

text \<open>
  A fragment with two blocks labelled as the location and one as the status; among its
  value texts one more that looks like a location comes first.
\<close>

definition relocated_item :: item where
  "relocated_item =
     \<lparr>recipient_text = Inr (Some ''Acme''), recipient_href = Inr None,
      flex_container = Inr [[labelled ''Location'' ''Austin, TX'',
                             labelled ''Location'' ''Waco, TX'',
                             labelled ''Loan Status'' ''Forgiven'']],
      all_values = Inr [''Dallas, TX'', ''Austin, TX'', ''Waco, TX'', ''Forgiven'', ''$1,000'']\<rparr>"

text \<open>A fragment whose second block is labelled as the location and has no value text.\<close>

definition overwritten_item :: item where
  "overwritten_item =
     \<lparr>recipient_text = Inr (Some ''Acme''), recipient_href = Inr None,
      flex_container = Inr [[labelled ''Location'' ''Austin, TX'',
                             \<lparr>label_text = Inr (Some ''Location''), value_text = Inr None\<rparr>]],
      all_values = Inr [''Dallas, TX'', ''Austin, TX'']\<rparr>"

definition page_of :: "item list \<Rightarrow> document" where
  "page_of items =
     \<lparr>search_query_value = Some ''90210'', h1_text = Some ''Results'',
      li_list_pt3 = items, ul_li_list = []\<rparr>"

definition response_of :: "item list \<Rightarrow> loan_response" where
  "response_of items = \<lparr>status = 200, url = ''https://example.org/search'', page = page_of items\<rparr>"

text \<open>A stand-in for \<^verbatim>\<open>urljoin\<close> in the examples: the reference appended to the base.\<close>

definition join_urls :: "string \<Rightarrow> string \<Rightarrow> py_exception + string" where
  "join_urls base ref = Inr (base @ ref)"

section \<open>Properties of the amount normaliser\<close>

lemma strip_without_space: "list_all (\<lambda>c. \<not> isspace c) s \<Longrightarrow> strip s = s"
proof -
  assume clean: "list_all (\<lambda>c. \<not> isspace c) s"
  then have front: "dropWhile isspace s = s"
    by (cases s) auto
  from clean have "list_all (\<lambda>c. \<not> isspace c) (rev s)"
    by (simp add: list_all_iff)
  then have "dropWhile isspace (rev s) = rev s"
    by (cases "rev s") auto
  with front show ?thesis by (simp add: strip_def)
qed

lemma strip_re_sub_amount: "strip (re_sub_amount s) = re_sub_amount s"
  by (rule strip_without_space) (simp add: re_sub_amount_def list_all_iff)

lemma parse_amount_value:
  "parse_amount s = Inr (if s = [] then None else floatvalue (re_sub_amount s))"
  by (simp add: parse_amount_def py_float_def strip_re_sub_amount split: option.splits)

lemma parse_amount_not_available: "parse_amount ''N/A'' = Inr None"
  by (simp add: parse_amount_def re_sub_amount_def isspace_def py_float_def strip_def
      floatvalue_def absfloatvalue_def lower_def lower_char_def floatnumber_def number_def
      digitpart_def isdigit_def after_point_def)

lemma re_sub_amount_example: "re_sub_amount ''$1,234,567.00'' = ''1234567.00''"
  by (simp add: re_sub_amount_def isspace_def)

lemma number_example: "number ''1234567.00'' = Some (''1234567'', ''00'', [])"
  by (simp add: number_def digitpart_def isdigit_def after_point_def)

lemma digits_value_example: "digits_value ''123456700'' = 123456700"
  by (simp add: digits_value_def digit_value_def)

lemma py_float_example: "py_float ''1234567.00'' = Inr (Finite 1234567)"
  by (simp add: py_float_def strip_def isspace_def floatvalue_def absfloatvalue_def lower_def
      lower_char_def floatnumber_def number_example digits_value_example)

lemma parse_amount_example: "parse_amount ''$1,234,567.00'' = Inr (Some (Finite 1234567))"
  by (simp add: parse_amount_def re_sub_amount_example py_float_example)

text \<open>
  Claim C7. The amount normaliser removes dollar signs, commas and whitespace and reads
  the rest as a decimal number; it returns \<open>None\<close> where that fails and never raises:
  \<^verbatim>\<open>"$1,234,567.00"\<close> gives 1234567.0, the empty string and \<^verbatim>\<open>"N/A"\<close> give
  \<open>None\<close>, and for every string the result is a returned value (\<open>Inr\<close>), namely what
  the float grammar reads off the cleaned string.
\<close>

theorem parse_amount_never_raises:
  "parse_amount ''$1,234,567.00'' = Inr (Some (Finite 1234567))
   \<and> parse_amount [] = Inr None
   \<and> parse_amount ''N/A'' = Inr None
   \<and> (\<forall>s. parse_amount s = Inr (if s = [] then None else floatvalue (re_sub_amount s)))"
  using parse_amount_example parse_amount_not_available parse_amount_value
  by (simp add: parse_amount_def)

theorem parse_amount_never_raises_witness:
  "parse_amount ''$ 12.5'' = Inr (Some (Finite (25 / 2)))"
proof -
  have "parse_amount ''$ 12.5'' = Inr (floatvalue (re_sub_amount ''$ 12.5''))"
    using parse_amount_never_raises by simp
  moreover have "re_sub_amount ''$ 12.5'' = ''12.5''"
    by (simp add: re_sub_amount_def isspace_def)
  moreover have "number ''12.5'' = Some (''12'', ''5'', [])"
    by (simp add: number_def digitpart_def isdigit_def after_point_def)
  moreover have "digits_value ''125'' = 125"
    by (simp add: digits_value_def digit_value_def)
  ultimately show ?thesis
    by (simp add: floatvalue_def absfloatvalue_def lower_def lower_char_def floatnumber_def)
qed

section \<open>Properties of the response gate\<close>











section \<open>Properties of the batch loops\<close>

subsection \<open>Sequencing, indices and the text of an entry\<close>

lemma then_q_Inr_iff:
  "then_q m f = Inr y \<longleftrightarrow> (\<exists>v. m = Inr v \<and> f v = Inr y)"
  by (cases m) (simp_all add: then_q_def)

lemma then_q_Inl_iff:
  "then_q m f = Inl e \<longleftrightarrow> (m = Inl e \<or> (\<exists>v. m = Inr v \<and> f v = Inl e))"
  by (cases m) (simp_all add: then_q_def)

lemma extract_loan_data_index:
  "extract_loan_data item idx = Inr l \<Longrightarrow> index l = idx + 1"
  by (auto simp: extract_loan_data_def then_q_Inr_iff Let_def)

lemma spider_extract_loan_data_index:
  "spider_extract_loan_data urljoin now item u idx = Inr l \<Longrightarrow> index l = idx + 1"
  by (auto simp: spider_extract_loan_data_def then_q_Inr_iff Let_def)

lemma loan_loop_append:
  "loan_loop now (xs @ ys) st = loan_loop now ys (loan_loop now xs st)"
proof (induction xs arbitrary: st)
  case Nil
  show ?case by (cases st) simp
next
  case (Cons p xs)
  obtain idx item where p: "p = (idx, item)" by (cases p)
  obtain ls es where st: "st = (ls, es)" by (cases st)
  show ?case
    by (simp add: p st Cons.IH split: sum.splits)
qed

lemma loan_loop_from:
  "loan_loop now ps (ls, es) =
     (ls @ fst (loan_loop now ps ([], [])), es @ snd (loan_loop now ps ([], [])))"
proof (induction ps arbitrary: ls es)
  case Nil
  show ?case by simp
next
  case (Cons p ps)
  obtain idx item where p: "p = (idx, item)" by (cases p)
  show ?case
  proof (cases "extract_loan_data item idx")
    case (Inl e)
    then show ?thesis
      using Cons.IH [of ls "es @ [extraction_error now idx e]"]
            Cons.IH [of "[]" "[extraction_error now idx e]"]
      by (simp add: p)
  next
    case (Inr l)
    then show ?thesis
      using Cons.IH [of "ls @ [l]" es] Cons.IH [of "[l]" "[]"] Cons.IH [of ls es]
      by (simp add: p)
  qed
qed

lemma startswith_append: "startswith (a @ x) (a @ y) = startswith x y"
  by (induction a) simp_all

lemma startswith_self: "startswith (a @ x) a"
  by (induction a) simp_all

lemma isdigit_char_of: "(d::nat) < 10 \<Longrightarrow> isdigit (char_of (48 + d))"
  by (simp add: isdigit_def)

lemma digit_value_char_of: "(d::nat) < 10 \<Longrightarrow> digit_value (char_of (48 + d)) = d"
  by (simp add: digit_value_def)

lemma str_nat_digits: "list_all isdigit (str_nat n) \<and> str_nat n \<noteq> []"
proof (induction n rule: str_nat.induct)
  case (1 n)
  show ?case
  proof (cases "n < 10")
    case True
    then show ?thesis by (simp add: str_nat.simps [of n] isdigit_char_of)
  next
    case False
    have "n mod 10 < 10" by simp
    then have "isdigit (char_of (48 + n mod 10))" by (rule isdigit_char_of)
    with False 1 show ?thesis by (simp add: str_nat.simps [of n])
  qed
qed

lemma digits_value_snoc: "digits_value (ds @ [d]) = 10 * digits_value ds + digit_value d"
  by (simp add: digits_value_def)

lemma digits_value_str_nat: "digits_value (str_nat n) = n"
proof (induction n rule: str_nat.induct)
  case (1 n)
  show ?case
  proof (cases "n < 10")
    case True
    then show ?thesis
      by (simp add: str_nat.simps [of n] digits_value_def digit_value_char_of)
  next
    case False
    have "n mod 10 < 10" by simp
    then have "digit_value (char_of (48 + n mod 10)) = n mod 10" by (rule digit_value_char_of)
    with False 1 have "digits_value (str_nat n) = 10 * (n div 10) + n mod 10"
      by (simp add: str_nat.simps [of n] digits_value_snoc)
    then show ?thesis by simp
  qed
qed

lemma str_nat_inject: "str_nat i = str_nat j \<Longrightarrow> i = j"
  by (metis digits_value_str_nat)

lemma digits_colon_prefix:
  "list_all isdigit d1 \<Longrightarrow> list_all isdigit d2 \<Longrightarrow>
   startswith (d1 @ CHR '':'' # r) (d2 @ [CHR '':'']) \<Longrightarrow> d1 = d2"
proof (induction d1 arbitrary: d2)
  case Nil
  then show ?case by (cases d2) (auto simp: isdigit_def)
next
  case (Cons c d1)
  then show ?case by (cases d2) (auto simp: isdigit_def)
qed

lemma extraction_error_prefix:
  "startswith (message (extraction_error now i e)) (failure_prefix k) \<longleftrightarrow> i = k"
proof
  assume "startswith (message (extraction_error now i e)) (failure_prefix k)"
  then have "startswith (''Failed to extract loan '' @ (str_nat i @ CHR '':'' # CHR '' '' # str_exc e))
                        (''Failed to extract loan '' @ (str_nat k @ [CHR '':'']))"
    by (simp add: extraction_error_def failure_prefix_def)
  then have "startswith (str_nat i @ CHR '':'' # CHR '' '' # str_exc e) (str_nat k @ [CHR '':''])"
    by (simp only: startswith_append)
  then have "str_nat i = str_nat k"
    using digits_colon_prefix str_nat_digits by blast
  then show "i = k" by (rule str_nat_inject)
next
  assume "i = k"
  have "startswith (failure_prefix k @ (CHR '' '' # str_exc e)) (failure_prefix k)"
    by (rule startswith_self)
  with \<open>i = k\<close> show "startswith (message (extraction_error now i e)) (failure_prefix k)"
    by (simp add: extraction_error_def failure_prefix_def)
qed

lemma loan_loop_errors_origin:
  "er \<in> set (snd (loan_loop now (enumerate n xs) ([], []))) \<Longrightarrow>
   \<exists>i e. n \<le> i \<and> i < n + length xs \<and> er = extraction_error now i e"
proof (induction xs arbitrary: n)
  case Nil
  then show ?case by simp
next
  case (Cons x xs)
  have step: "loan_loop now (enumerate n (x # xs)) ([], []) =
        loan_loop now (enumerate (Suc n) xs) (loan_loop now [(n, x)] ([], []))"
    using loan_loop_append [of now "[(n, x)]" "enumerate (Suc n) xs" "([], [])"] by simp
  obtain ls es where first: "loan_loop now [(n, x)] ([], []) = (ls, es)"
    by (cases "loan_loop now [(n, x)] ([], [])")
  have es: "es = [] \<or> (\<exists>e. es = [extraction_error now n e])"
    using first by (auto split: sum.splits if_splits)
  have "snd (loan_loop now (enumerate n (x # xs)) ([], [])) =
        es @ snd (loan_loop now (enumerate (Suc n) xs) ([], []))"
    using step first loan_loop_from [of now "enumerate (Suc n) xs" ls es] by simp
  with Cons.prems have "er \<in> set es \<or> er \<in> set (snd (loan_loop now (enumerate (Suc n) xs) ([], [])))"
    by auto
  then show ?case
  proof
    assume "er \<in> set es"
    with es obtain e where "er = extraction_error now n e" by auto
    then show ?thesis by (intro exI [of _ n] exI [of _ e]) simp
  next
    assume "er \<in> set (snd (loan_loop now (enumerate (Suc n) xs) ([], [])))"
    from Cons.IH [OF this] obtain i e where
      "Suc n \<le> i" "i < Suc n + length xs" "er = extraction_error now i e" by blast
    then show ?thesis by (intro exI [of _ i] exI [of _ e]) simp
  qed
qed

lemma loan_loop_loans_origin:
  "l \<in> set (fst (loan_loop now (enumerate n xs) ([], []))) \<Longrightarrow>
   n < index l \<and> index l \<le> n + length xs \<and> recipient l \<noteq> []
   \<and> extract_loan_data (xs ! (index l - 1 - n)) (index l - 1) = Inr l"
proof (induction xs arbitrary: n)
  case Nil
  then show ?case by simp
next
  case (Cons x xs)
  have step: "loan_loop now (enumerate n (x # xs)) ([], []) =
        loan_loop now (enumerate (Suc n) xs) (loan_loop now [(n, x)] ([], []))"
    using loan_loop_append [of now "[(n, x)]" "enumerate (Suc n) xs" "([], [])"] by simp
  obtain ls es where first: "loan_loop now [(n, x)] ([], []) = (ls, es)"
    by (cases "loan_loop now [(n, x)] ([], [])")
  have ls: "ls = [] \<or> (\<exists>k. ls = [k] \<and> extract_loan_data x n = Inr k \<and> recipient k \<noteq> [])"
    using first by (auto split: sum.splits if_splits)
  have "fst (loan_loop now (enumerate n (x # xs)) ([], [])) =
        ls @ fst (loan_loop now (enumerate (Suc n) xs) ([], []))"
    using step first loan_loop_from [of now "enumerate (Suc n) xs" ls es] by simp
  with Cons.prems have "l \<in> set ls \<or> l \<in> set (fst (loan_loop now (enumerate (Suc n) xs) ([], [])))"
    by auto
  then show ?case
  proof
    assume "l \<in> set ls"
    with ls have l: "extract_loan_data x n = Inr l" "recipient l \<noteq> []" by auto
    then have "index l = n + 1" by (simp add: extract_loan_data_index)
    with l show ?thesis by simp
  next
    assume "l \<in> set (fst (loan_loop now (enumerate (Suc n) xs) ([], [])))"
    from Cons.IH [OF this]
    have b: "Suc n < index l" "index l \<le> Suc n + length xs" "recipient l \<noteq> []"
      "extract_loan_data (xs ! (index l - 1 - Suc n)) (index l - 1) = Inr l" by auto
    from b(1) have "index l - 1 - n = Suc (index l - 1 - Suc n)" by arith
    then have "(x # xs) ! (index l - 1 - n) = xs ! (index l - 1 - Suc n)"
      by simp
    with b show ?thesis by simp
  qed
qed

subsection \<open>The spider's loop\<close>

lemma spider_loop_append:
  "spider_loop U now u (xs @ ys) st = spider_loop U now u ys (spider_loop U now u xs st)"
proof (induction xs arbitrary: st)
  case Nil
  show ?case by (cases st) simp
next
  case (Cons p xs)
  obtain idx item where p: "p = (idx, item)" by (cases p)
  obtain sp yielded where st: "st = (sp, yielded)" by (cases st)
  show ?case
    by (simp add: p st Cons.IH split: sum.splits)
qed

lemma spider_loop_from:
  "spider_loop U now u ps (sp, ys) =
     (sp\<lparr>scraped_loans := scraped_loans sp @ snd (spider_loop U now u ps (new_spider, [])),
         spider_errors := spider_errors sp
                           @ spider_errors (fst (spider_loop U now u ps (new_spider, [])))\<rparr>,
      ys @ snd (spider_loop U now u ps (new_spider, [])))"
proof (induction ps arbitrary: sp ys)
  case Nil
  show ?case by (simp add: new_spider_def)
next
  case (Cons p ps)
  obtain idx item where p: "p = (idx, item)" by (cases p)
  show ?case
  proof (cases "spider_extract_loan_data U now item u idx")
    case (Inl e)
    then show ?thesis
      using Cons.IH [of "sp\<lparr>spider_errors := spider_errors sp @ [extraction_error now idx e]\<rparr>" ys]
            Cons.IH [of "new_spider\<lparr>spider_errors := spider_errors new_spider @ [extraction_error now idx e]\<rparr>" "[]"]
      by (simp add: p new_spider_def)
  next
    case (Inr l)
    then show ?thesis
      using Cons.IH [of "sp\<lparr>scraped_loans := scraped_loans sp @ [l]\<rparr>" "ys @ [l]"]
            Cons.IH [of "new_spider\<lparr>scraped_loans := scraped_loans new_spider @ [l]\<rparr>" "[l]"]
            Cons.IH [of sp ys]
      by (simp add: p new_spider_def)
  qed
qed

lemma spider_loop_errors_origin:
  "er \<in> set (spider_errors (fst (spider_loop U now u (enumerate n xs) (new_spider, [])))) \<Longrightarrow>
   \<exists>i e. n \<le> i \<and> i < n + length xs \<and> er = extraction_error now i e"
proof (induction xs arbitrary: n)
  case Nil
  then show ?case by (simp add: new_spider_def)
next
  case (Cons x xs)
  have step: "spider_loop U now u (enumerate n (x # xs)) (new_spider, []) =
        spider_loop U now u (enumerate (Suc n) xs) (spider_loop U now u [(n, x)] (new_spider, []))"
    using spider_loop_append [of U now u "[(n, x)]" "enumerate (Suc n) xs" "(new_spider, [])"] by simp
  obtain sp ys where first: "spider_loop U now u [(n, x)] (new_spider, []) = (sp, ys)"
    by (cases "spider_loop U now u [(n, x)] (new_spider, [])")
  have es: "spider_errors sp = [] \<or> (\<exists>e. spider_errors sp = [extraction_error now n e])"
    using first by (auto simp: new_spider_def split: sum.splits if_splits)
  have "spider_errors (fst (spider_loop U now u (enumerate n (x # xs)) (new_spider, []))) =
        spider_errors sp @ spider_errors (fst (spider_loop U now u (enumerate (Suc n) xs) (new_spider, [])))"
    using step first spider_loop_from [of U now u "enumerate (Suc n) xs" sp ys] by simp
  with Cons.prems have "er \<in> set (spider_errors sp)
      \<or> er \<in> set (spider_errors (fst (spider_loop U now u (enumerate (Suc n) xs) (new_spider, []))))"
    by auto
  then show ?case
  proof
    assume "er \<in> set (spider_errors sp)"
    with es obtain e where "er = extraction_error now n e" by auto
    then show ?thesis by (intro exI [of _ n] exI [of _ e]) simp
  next
    assume "er \<in> set (spider_errors (fst (spider_loop U now u (enumerate (Suc n) xs) (new_spider, []))))"
    from Cons.IH [OF this] obtain i e where
      "Suc n \<le> i" "i < Suc n + length xs" "er = extraction_error now i e" by blast
    then show ?thesis by (intro exI [of _ i] exI [of _ e]) simp
  qed
qed

lemma spider_loop_loans_origin:
  "l \<in> set (snd (spider_loop U now u (enumerate n xs) (new_spider, []))) \<Longrightarrow>
   n < index l \<and> index l \<le> n + length xs \<and> recipient l \<noteq> []
   \<and> spider_extract_loan_data U now (xs ! (index l - 1 - n)) u (index l - 1) = Inr l"
proof (induction xs arbitrary: n)
  case Nil
  then show ?case by simp
next
  case (Cons x xs)
  have step: "spider_loop U now u (enumerate n (x # xs)) (new_spider, []) =
        spider_loop U now u (enumerate (Suc n) xs) (spider_loop U now u [(n, x)] (new_spider, []))"
    using spider_loop_append [of U now u "[(n, x)]" "enumerate (Suc n) xs" "(new_spider, [])"] by simp
  obtain sp ys where first: "spider_loop U now u [(n, x)] (new_spider, []) = (sp, ys)"
    by (cases "spider_loop U now u [(n, x)] (new_spider, [])")
  have ys: "ys = [] \<or> (\<exists>k. ys = [k] \<and> spider_extract_loan_data U now x u n = Inr k \<and> recipient k \<noteq> [])"
    using first by (auto split: sum.splits if_splits)
  have "snd (spider_loop U now u (enumerate n (x # xs)) (new_spider, [])) =
        ys @ snd (spider_loop U now u (enumerate (Suc n) xs) (new_spider, []))"
    using step first spider_loop_from [of U now u "enumerate (Suc n) xs" sp ys] by simp
  with Cons.prems have "l \<in> set ys \<or> l \<in> set (snd (spider_loop U now u (enumerate (Suc n) xs) (new_spider, [])))"
    by auto
  then show ?case
  proof
    assume "l \<in> set ys"
    with ys have l: "spider_extract_loan_data U now x u n = Inr l" "recipient l \<noteq> []" by auto
    then have "index l = n + 1" by (simp add: spider_extract_loan_data_index)
    with l show ?thesis by simp
  next
    assume "l \<in> set (snd (spider_loop U now u (enumerate (Suc n) xs) (new_spider, [])))"
    from Cons.IH [OF this]
    have b: "Suc n < index l" "index l \<le> Suc n + length xs" "recipient l \<noteq> []"
      "spider_extract_loan_data U now (xs ! (index l - 1 - Suc n)) u (index l - 1) = Inr l" by auto
    from b(1) have "index l - 1 - n = Suc (index l - 1 - Suc n)" by arith
    then have "(x # xs) ! (index l - 1 - n) = xs ! (index l - 1 - Suc n)"
      by simp
    with b show ?thesis by simp
  qed
qed

lemma spider_loop_scraped:
  "scraped_loans (fst (spider_loop U now u ps (new_spider, []))) = snd (spider_loop U now u ps (new_spider, []))"
proof (induction ps rule: rev_induct)
  case Nil
  show ?case by (simp add: new_spider_def)
next
  case (snoc p ps)
  obtain idx item where p: "p = (idx, item)" by (cases p)
  obtain sp ys where r: "spider_loop U now u ps (new_spider, []) = (sp, ys)"
    by (cases "spider_loop U now u ps (new_spider, [])")
  with snoc have "scraped_loans sp = ys" by simp
  then show ?case
    by (simp add: spider_loop_append r p split: sum.splits)
qed

subsection \<open>A fragment that raises\<close>

lemma loan_loop_split:
  "loan_loop now (enumerate 0 (pre @ item # post)) ([], []) =
     loan_loop now (enumerate (Suc (length pre)) post)
       (loan_loop now [(length pre, item)] (loan_loop now (enumerate 0 pre) ([], [])))"
proof -
  have "enumerate 0 (pre @ item # post) =
          enumerate 0 pre @ [(length pre, item)] @ enumerate (Suc (length pre)) post"
    by (simp add: enumerate_append_eq)
  then show ?thesis by (simp only: loan_loop_append)
qed

lemma loan_loop_failed:
  assumes "extract_loan_data item (length pre) = Inl e"
  shows "loan_loop now (enumerate 0 (pre @ item # post)) ([], []) =
     (fst (loan_loop now (enumerate 0 pre) ([], []))
        @ fst (loan_loop now (enumerate (Suc (length pre)) post) ([], [])),
      snd (loan_loop now (enumerate 0 pre) ([], []))
        @ [extraction_error now (length pre) e]
        @ snd (loan_loop now (enumerate (Suc (length pre)) post) ([], [])))"
proof -
  obtain ls es where pre: "loan_loop now (enumerate 0 pre) ([], []) = (ls, es)"
    by (cases "loan_loop now (enumerate 0 pre) ([], [])")
  show ?thesis
    using assms loan_loop_from [of now "enumerate (Suc (length pre)) post" ls
        "es @ [extraction_error now (length pre) e]"]
    by (simp add: loan_loop_split pre)
qed

lemma loan_loop_dropped:
  assumes "extract_loan_data item (length pre) = Inr l" and "recipient l = []"
  shows "loan_loop now (enumerate 0 (pre @ item # post)) ([], []) =
     (fst (loan_loop now (enumerate 0 pre) ([], []))
        @ fst (loan_loop now (enumerate (Suc (length pre)) post) ([], [])),
      snd (loan_loop now (enumerate 0 pre) ([], []))
        @ snd (loan_loop now (enumerate (Suc (length pre)) post) ([], [])))"
proof -
  obtain ls es where pre: "loan_loop now (enumerate 0 pre) ([], []) = (ls, es)"
    by (cases "loan_loop now (enumerate 0 pre) ([], [])")
  show ?thesis
    using assms loan_loop_from [of now "enumerate (Suc (length pre)) post" ls es]
    by (simp add: loan_loop_split pre)
qed

lemma other_entries_have_other_index:
  assumes "\<And>er. er \<in> set es \<Longrightarrow> \<exists>i e. n \<le> i \<and> i < n + m \<and> er = extraction_error now i e"
      and "k < n \<or> n + m \<le> k"
  shows "filter (\<lambda>er. startswith (message er) (failure_prefix k)) es = []"
proof -
  have "\<not> startswith (message er) (failure_prefix k)"
    if "er \<in> set es" for er
  proof -
    from assms(1) [OF that] obtain i e where
      i: "n \<le> i" "i < n + m" "er = extraction_error now i e" by blast
    with assms(2) have "i \<noteq> k" by arith
    with i(3) show ?thesis by (simp add: extraction_error_prefix)
  qed
  then show ?thesis by (simp add: filter_empty_conv)
qed

lemma parser_bad_fragment:
  assumes items: "loan_items doc = pre @ item # post"
      and bad: "extract_loan_data item (length pre) = Inl e"
  shows "errors (parse_loan_html now doc) =
           snd (loan_loop now (enumerate 0 pre) ([], []))
           @ [\<lparr>error_type = ''ExtractionError'',
               message = ''Failed to extract loan '' @ str_nat (length pre) @ '': '' @ str_exc e,
               timestamp = now (AtFragment (length pre)),
               error_url = None, status_code = None, suggestion = None\<rparr>]
           @ snd (loan_loop now (enumerate (Suc (length pre)) post) ([], []))"
    and "loans (parse_loan_html now doc) =
           fst (loan_loop now (enumerate 0 pre) ([], []))
           @ fst (loan_loop now (enumerate (Suc (length pre)) post) ([], []))"
    and "length (filter (\<lambda>er. startswith (message er) (failure_prefix (length pre)))
                 (errors (parse_loan_html now doc))) = 1"
proof -
  have run: "loan_loop now (enumerate 0 (loan_items doc)) ([], []) =
     (fst (loan_loop now (enumerate 0 pre) ([], []))
        @ fst (loan_loop now (enumerate (Suc (length pre)) post) ([], [])),
      snd (loan_loop now (enumerate 0 pre) ([], []))
        @ [extraction_error now (length pre) e]
        @ snd (loan_loop now (enumerate (Suc (length pre)) post) ([], [])))"
    using loan_loop_failed [OF bad] by (simp add: items)
  show e: "errors (parse_loan_html now doc) =
           snd (loan_loop now (enumerate 0 pre) ([], []))
           @ [\<lparr>error_type = ''ExtractionError'',
               message = ''Failed to extract loan '' @ str_nat (length pre) @ '': '' @ str_exc e,
               timestamp = now (AtFragment (length pre)),
               error_url = None, status_code = None, suggestion = None\<rparr>]
           @ snd (loan_loop now (enumerate (Suc (length pre)) post) ([], []))"
    by (simp add: parse_loan_html_def Let_def run extraction_error_def)
  show "loans (parse_loan_html now doc) =
           fst (loan_loop now (enumerate 0 pre) ([], []))
           @ fst (loan_loop now (enumerate (Suc (length pre)) post) ([], []))"
    by (simp add: parse_loan_html_def Let_def run)
  have before: "filter (\<lambda>er. startswith (message er) (failure_prefix (length pre)))
                 (snd (loan_loop now (enumerate 0 pre) ([], []))) = []"
  proof (rule other_entries_have_other_index [where n = 0 and m = "length pre" and now = now])
    fix er assume "er \<in> set (snd (loan_loop now (enumerate 0 pre) ([], [])))"
    then show "\<exists>i e. 0 \<le> i \<and> i < 0 + length pre \<and> er = extraction_error now i e"
      by (rule loan_loop_errors_origin)
  qed simp
  have after: "filter (\<lambda>er. startswith (message er) (failure_prefix (length pre)))
                 (snd (loan_loop now (enumerate (Suc (length pre)) post) ([], []))) = []"
  proof (rule other_entries_have_other_index
      [where n = "Suc (length pre)" and m = "length post" and now = now])
    fix er assume "er \<in> set (snd (loan_loop now (enumerate (Suc (length pre)) post) ([], [])))"
    then show "\<exists>i e. Suc (length pre) \<le> i \<and> i < Suc (length pre) + length post
                 \<and> er = extraction_error now i e"
      by (rule loan_loop_errors_origin)
  qed simp
  have this_one: "startswith (message (extraction_error now (length pre) e)) (failure_prefix (length pre))"
    by (simp add: extraction_error_prefix)
  have "errors (parse_loan_html now doc) =
           snd (loan_loop now (enumerate 0 pre) ([], []))
           @ [extraction_error now (length pre) e]
           @ snd (loan_loop now (enumerate (Suc (length pre)) post) ([], []))"
    by (simp add: parse_loan_html_def Let_def run)
  then show "length (filter (\<lambda>er. startswith (message er) (failure_prefix (length pre)))
                 (errors (parse_loan_html now doc))) = 1"
    using before after this_one by simp
qed

lemma spider_loop_split:
  "spider_loop U now u (enumerate 0 (pre @ item # post)) st =
     spider_loop U now u (enumerate (Suc (length pre)) post)
       (spider_loop U now u [(length pre, item)] (spider_loop U now u (enumerate 0 pre) st))"
proof -
  have "enumerate 0 (pre @ item # post) =
          enumerate 0 pre @ [(length pre, item)] @ enumerate (Suc (length pre)) post"
    by (simp add: enumerate_append_eq)
  then show ?thesis by (simp only: spider_loop_append)
qed

lemma spider_loop_failed:
  assumes "spider_extract_loan_data U now item u (length pre) = Inl e"
  shows "spider_errors (fst (spider_loop U now u (enumerate 0 (pre @ item # post)) (new_spider, []))) =
           spider_errors (fst (spider_loop U now u (enumerate 0 pre) (new_spider, [])))
           @ [extraction_error now (length pre) e]
           @ spider_errors (fst (spider_loop U now u (enumerate (Suc (length pre)) post) (new_spider, [])))"
    and "snd (spider_loop U now u (enumerate 0 (pre @ item # post)) (new_spider, [])) =
           snd (spider_loop U now u (enumerate 0 pre) (new_spider, []))
           @ snd (spider_loop U now u (enumerate (Suc (length pre)) post) (new_spider, []))"
proof -
  obtain sp ys where pre: "spider_loop U now u (enumerate 0 pre) (new_spider, []) = (sp, ys)"
    by (cases "spider_loop U now u (enumerate 0 pre) (new_spider, [])")
  have "spider_loop U now u (enumerate 0 (pre @ item # post)) (new_spider, []) =
        spider_loop U now u (enumerate (Suc (length pre)) post)
          (sp\<lparr>spider_errors := spider_errors sp @ [extraction_error now (length pre) e]\<rparr>, ys)"
    using assms by (simp add: spider_loop_split pre)
  then have run: "spider_loop U now u (enumerate 0 (pre @ item # post)) (new_spider, []) =
      (sp\<lparr>scraped_loans := scraped_loans sp
              @ snd (spider_loop U now u (enumerate (Suc (length pre)) post) (new_spider, [])),
          spider_errors := (spider_errors sp @ [extraction_error now (length pre) e])
              @ spider_errors (fst (spider_loop U now u (enumerate (Suc (length pre)) post) (new_spider, [])))\<rparr>,
       ys @ snd (spider_loop U now u (enumerate (Suc (length pre)) post) (new_spider, [])))"
    using spider_loop_from [of U now u "enumerate (Suc (length pre)) post"
        "sp\<lparr>spider_errors := spider_errors sp @ [extraction_error now (length pre) e]\<rparr>" ys]
    by simp
  show "spider_errors (fst (spider_loop U now u (enumerate 0 (pre @ item # post)) (new_spider, []))) =
           spider_errors (fst (spider_loop U now u (enumerate 0 pre) (new_spider, [])))
           @ [extraction_error now (length pre) e]
           @ spider_errors (fst (spider_loop U now u (enumerate (Suc (length pre)) post) (new_spider, [])))"
    by (simp add: run pre)
  show "snd (spider_loop U now u (enumerate 0 (pre @ item # post)) (new_spider, [])) =
           snd (spider_loop U now u (enumerate 0 pre) (new_spider, []))
           @ snd (spider_loop U now u (enumerate (Suc (length pre)) post) (new_spider, []))"
    by (simp add: run pre)
qed

lemma spider_loop_dropped:
  assumes "spider_extract_loan_data U now item u (length pre) = Inr l" and "recipient l = []"
  shows "spider_errors (fst (spider_loop U now u (enumerate 0 (pre @ item # post)) (new_spider, []))) =
           spider_errors (fst (spider_loop U now u (enumerate 0 pre) (new_spider, [])))
           @ spider_errors (fst (spider_loop U now u (enumerate (Suc (length pre)) post) (new_spider, [])))"
    and "snd (spider_loop U now u (enumerate 0 (pre @ item # post)) (new_spider, [])) =
           snd (spider_loop U now u (enumerate 0 pre) (new_spider, []))
           @ snd (spider_loop U now u (enumerate (Suc (length pre)) post) (new_spider, []))"
proof -
  obtain sp ys where pre: "spider_loop U now u (enumerate 0 pre) (new_spider, []) = (sp, ys)"
    by (cases "spider_loop U now u (enumerate 0 pre) (new_spider, [])")
  have "spider_loop U now u (enumerate 0 (pre @ item # post)) (new_spider, []) =
        spider_loop U now u (enumerate (Suc (length pre)) post) (sp, ys)"
    using assms by (simp add: spider_loop_split pre)
  then have run: "spider_loop U now u (enumerate 0 (pre @ item # post)) (new_spider, []) =
      (sp\<lparr>scraped_loans := scraped_loans sp
              @ snd (spider_loop U now u (enumerate (Suc (length pre)) post) (new_spider, [])),
          spider_errors := spider_errors sp
              @ spider_errors (fst (spider_loop U now u (enumerate (Suc (length pre)) post) (new_spider, [])))\<rparr>,
       ys @ snd (spider_loop U now u (enumerate (Suc (length pre)) post) (new_spider, [])))"
    using spider_loop_from [of U now u "enumerate (Suc (length pre)) post" sp ys]
    by simp
  show "spider_errors (fst (spider_loop U now u (enumerate 0 (pre @ item # post)) (new_spider, []))) =
           spider_errors (fst (spider_loop U now u (enumerate 0 pre) (new_spider, [])))
           @ spider_errors (fst (spider_loop U now u (enumerate (Suc (length pre)) post) (new_spider, [])))"
    by (simp add: run pre)
  show "snd (spider_loop U now u (enumerate 0 (pre @ item # post)) (new_spider, [])) =
           snd (spider_loop U now u (enumerate 0 pre) (new_spider, []))
           @ snd (spider_loop U now u (enumerate (Suc (length pre)) post) (new_spider, []))"
    by (simp add: run pre)
qed

text \<open>What a call of the spider's \<open>parse\<close> adds, in terms of a run from a new spider.\<close>

lemma propublica_parse_run:
  assumes "status response < 400" and "loan_items (page response) \<noteq> []"
  shows "propublica_parse U now response sp =
     (sp\<lparr>scraped_loans := scraped_loans sp
            @ snd (spider_loop U now (url response) (enumerate 0 (loan_items (page response))) (new_spider, [])),
         spider_errors := spider_errors sp
            @ spider_errors (fst (spider_loop U now (url response)
                                    (enumerate 0 (loan_items (page response))) (new_spider, [])))\<rparr>,
      snd (spider_loop U now (url response) (enumerate 0 (loan_items (page response))) (new_spider, [])))"
  using assms
    spider_loop_from [of U now "url response" "enumerate 0 (loan_items (page response))" sp "[]"]
  by (simp add: propublica_parse_def)

lemma parse_loan_html_run:
  "loans (parse_loan_html now doc) = fst (loan_loop now (enumerate 0 (loan_items doc)) ([], []))"
  "errors (parse_loan_html now doc) = snd (loan_loop now (enumerate 0 (loan_items doc)) ([], []))"
  by (simp_all add: parse_loan_html_def Let_def)

lemma spider_bad_fragment:
  assumes ok: "status response < 400"
      and items: "loan_items (page response) = pre @ item # post"
      and bad: "spider_extract_loan_data U now item (url response) (length pre) = Inl e"
  shows "spider_errors (fst (propublica_parse U now response sp)) =
           spider_errors sp
           @ spider_errors (fst (spider_loop U now (url response) (enumerate 0 pre) (new_spider, [])))
           @ [extraction_error now (length pre) e]
           @ spider_errors (fst (spider_loop U now (url response)
                                   (enumerate (Suc (length pre)) post) (new_spider, [])))"
    and "snd (propublica_parse U now response sp) =
           snd (spider_loop U now (url response) (enumerate 0 pre) (new_spider, []))
           @ snd (spider_loop U now (url response) (enumerate (Suc (length pre)) post) (new_spider, []))"
    and "scraped_loans (fst (propublica_parse U now response sp)) =
           scraped_loans sp @ snd (propublica_parse U now response sp)"
    and "length (filter (\<lambda>er. startswith (message er) (failure_prefix (length pre)))
           (drop (length (spider_errors sp)) (spider_errors (fst (propublica_parse U now response sp))))) = 1"
proof -
  have ne: "loan_items (page response) \<noteq> []" by (simp add: items)
  note run = propublica_parse_run [OF ok ne, of U now sp]
  note parts = spider_loop_failed [OF bad, of post]
  show errs: "spider_errors (fst (propublica_parse U now response sp)) =
           spider_errors sp
           @ spider_errors (fst (spider_loop U now (url response) (enumerate 0 pre) (new_spider, [])))
           @ [extraction_error now (length pre) e]
           @ spider_errors (fst (spider_loop U now (url response)
                                   (enumerate (Suc (length pre)) post) (new_spider, [])))"
    by (simp add: run items parts)
  show "snd (propublica_parse U now response sp) =
           snd (spider_loop U now (url response) (enumerate 0 pre) (new_spider, []))
           @ snd (spider_loop U now (url response) (enumerate (Suc (length pre)) post) (new_spider, []))"
    by (simp add: run items parts)
  show "scraped_loans (fst (propublica_parse U now response sp)) =
           scraped_loans sp @ snd (propublica_parse U now response sp)"
    by (simp add: run)
  have before: "filter (\<lambda>er. startswith (message er) (failure_prefix (length pre)))
        (spider_errors (fst (spider_loop U now (url response) (enumerate 0 pre) (new_spider, [])))) = []"
  proof (rule other_entries_have_other_index [where n = 0 and m = "length pre" and now = now])
    fix er
    assume "er \<in> set (spider_errors (fst (spider_loop U now (url response) (enumerate 0 pre) (new_spider, []))))"
    then show "\<exists>i e. 0 \<le> i \<and> i < 0 + length pre \<and> er = extraction_error now i e"
      by (rule spider_loop_errors_origin)
  qed simp
  have after: "filter (\<lambda>er. startswith (message er) (failure_prefix (length pre)))
        (spider_errors (fst (spider_loop U now (url response)
                               (enumerate (Suc (length pre)) post) (new_spider, [])))) = []"
  proof (rule other_entries_have_other_index
      [where n = "Suc (length pre)" and m = "length post" and now = now])
    fix er
    assume "er \<in> set (spider_errors (fst (spider_loop U now (url response)
                               (enumerate (Suc (length pre)) post) (new_spider, []))))"
    then show "\<exists>i e. Suc (length pre) \<le> i \<and> i < Suc (length pre) + length post
                 \<and> er = extraction_error now i e"
      by (rule spider_loop_errors_origin)
  qed simp
  have this_one: "startswith (message (extraction_error now (length pre) e)) (failure_prefix (length pre))"
    by (simp add: extraction_error_prefix)
  show "length (filter (\<lambda>er. startswith (message er) (failure_prefix (length pre)))
           (drop (length (spider_errors sp)) (spider_errors (fst (propublica_parse U now response sp))))) = 1"
    using before after this_one by (simp add: errs)
qed

subsection \<open>The sample fragments\<close>

lemma strip_examples:
  "strip ''Acme'' = ''Acme''" "strip ''Bolt'' = ''Bolt''" "strip [] = []"
  by (simp_all add: strip_def isspace_def)

lemma str_nat_examples:
  "str_nat 0 = ''0''" "str_nat 1 = ''1''" "str_nat (Suc 0) = ''1''" "str_nat 2 = ''2''"
  by code_simp+

lemma extract_plain_item:
  "extract_loan_data (plain_item name) idx =
     Inr \<lparr>location = [], loan_status = [], loan_amount = [], date_approved = [],
          index = idx + 1, recipient = strip name, detail_url = [],
          loan_amount_numeric = None\<rparr>"
  by (simp add: extract_loan_data_def plain_item_def then_q_def get_or_def flex_details_def
      initial_fields_def stripped_values_def parse_amount_def)

lemma extract_nameless_item:
  "extract_loan_data nameless_item idx =
     Inr \<lparr>location = [], loan_status = [], loan_amount = [], date_approved = [],
          index = idx + 1, recipient = [], detail_url = [],
          loan_amount_numeric = None\<rparr>"
  by (simp add: extract_loan_data_def nameless_item_def then_q_def get_or_def flex_details_def
      initial_fields_def stripped_values_def parse_amount_def strip_examples)

lemma extract_faulty_item:
  "extract_loan_data faulty_item idx = Inl (Exception ''selector failure'')"
  by (simp add: extract_loan_data_def faulty_item_def then_q_def)

lemma spider_extract_plain_item:
  "spider_extract_loan_data join_urls now (plain_item name) u idx =
     Inr \<lparr>location = [], loan_status = [], loan_amount = [], date_approved = [],
          index = idx + 1, recipient = strip name, detail_url = [],
          loan_amount_numeric = None, scraped_at = now (AtFragment idx)\<rparr>"
  by (simp add: spider_extract_loan_data_def plain_item_def then_q_def get_or_def flex_details_def
      initial_fields_def stripped_values_def parse_amount_def)

lemma spider_extract_nameless_item:
  "spider_extract_loan_data join_urls now nameless_item u idx =
     Inr \<lparr>location = [], loan_status = [], loan_amount = [], date_approved = [],
          index = idx + 1, recipient = [], detail_url = [],
          loan_amount_numeric = None, scraped_at = now (AtFragment idx)\<rparr>"
  by (simp add: spider_extract_loan_data_def nameless_item_def then_q_def get_or_def flex_details_def
      initial_fields_def stripped_values_def parse_amount_def strip_examples)

lemma spider_extract_faulty_item:
  "spider_extract_loan_data U now faulty_item u idx = Inl (Exception ''selector failure'')"
  by (simp add: spider_extract_loan_data_def faulty_item_def then_q_def)

lemmas sample_extractions =
  extract_plain_item extract_nameless_item extract_faulty_item
  spider_extract_plain_item spider_extract_nameless_item spider_extract_faulty_item
  strip_examples

lemma sample_pages:
  "loan_items (page_of (x # xs)) = x # xs"
  "loan_items (page (response_of (x # xs))) = x # xs"
  "status (response_of items) = 200"
  "url (response_of items) = ''https://example.org/search''"
  by (simp_all add: loan_items_def page_of_def response_of_def)

text \<open>
  Claim C4. When the extraction of a located fragment raises, the exception is caught at
  the fragment: the error list is the entries of the fragments before it, then exactly one
  \<open>ExtractionError\<close> entry whose message names the fragment's index, then the entries of
  the fragments after it; the records are those of the fragments before followed by those
  of the fragments after, so every later fragment is still processed. No other entry of the
  list starts with the text that names this index. The first part is the parser
  (\<^verbatim>\<open>parse_loan_html\<close>), the second the spider (\<^verbatim>\<open>PropublicaLoanSpider.parse\<close>), whose
  list may already hold entries of earlier calls.
\<close>

theorem fragment_failure_is_itemised:
  "(loan_items doc = pre @ item # post \<and> extract_loan_data item (length pre) = Inl e \<longrightarrow>
      errors (parse_loan_html now doc) =
        snd (loan_loop now (enumerate 0 pre) ([], []))
        @ [\<lparr>error_type = ''ExtractionError'',
            message = ''Failed to extract loan '' @ str_nat (length pre) @ '': '' @ str_exc e,
            timestamp = now (AtFragment (length pre)),
            error_url = None, status_code = None, suggestion = None\<rparr>]
        @ snd (loan_loop now (enumerate (Suc (length pre)) post) ([], []))
      \<and> loans (parse_loan_html now doc) =
          fst (loan_loop now (enumerate 0 pre) ([], []))
          @ fst (loan_loop now (enumerate (Suc (length pre)) post) ([], []))
      \<and> length (filter (\<lambda>er. startswith (message er) (failure_prefix (length pre)))
                  (errors (parse_loan_html now doc))) = 1)
   \<and> (status response < 400 \<and> loan_items (page response) = pre @ item # post
       \<and> spider_extract_loan_data urljoin now item (url response) (length pre) = Inl e \<longrightarrow>
      spider_errors (fst (propublica_parse urljoin now response sp)) =
        spider_errors sp
        @ spider_errors (fst (spider_loop urljoin now (url response) (enumerate 0 pre) (new_spider, [])))
        @ [\<lparr>error_type = ''ExtractionError'',
            message = ''Failed to extract loan '' @ str_nat (length pre) @ '': '' @ str_exc e,
            timestamp = now (AtFragment (length pre)),
            error_url = None, status_code = None, suggestion = None\<rparr>]
        @ spider_errors (fst (spider_loop urljoin now (url response)
                                (enumerate (Suc (length pre)) post) (new_spider, [])))
      \<and> snd (propublica_parse urljoin now response sp) =
          snd (spider_loop urljoin now (url response) (enumerate 0 pre) (new_spider, []))
          @ snd (spider_loop urljoin now (url response) (enumerate (Suc (length pre)) post)
                   (new_spider, []))
      \<and> scraped_loans (fst (propublica_parse urljoin now response sp)) =
          scraped_loans sp @ snd (propublica_parse urljoin now response sp)
      \<and> length (filter (\<lambda>er. startswith (message er) (failure_prefix (length pre)))
                  (drop (length (spider_errors sp))
                     (spider_errors (fst (propublica_parse urljoin now response sp))))) = 1)"
proof (intro conjI impI)
  assume a: "loan_items doc = pre @ item # post \<and> extract_loan_data item (length pre) = Inl e"
  then have items: "loan_items doc = pre @ item # post"
    and bad: "extract_loan_data item (length pre) = Inl e" by simp_all
  from parser_bad_fragment (1) [OF items bad]
  show "errors (parse_loan_html now doc) =
        snd (loan_loop now (enumerate 0 pre) ([], []))
        @ [\<lparr>error_type = ''ExtractionError'',
            message = ''Failed to extract loan '' @ str_nat (length pre) @ '': '' @ str_exc e,
            timestamp = now (AtFragment (length pre)),
            error_url = None, status_code = None, suggestion = None\<rparr>]
        @ snd (loan_loop now (enumerate (Suc (length pre)) post) ([], []))" .
  from parser_bad_fragment (2) [OF items bad]
  show "loans (parse_loan_html now doc) =
          fst (loan_loop now (enumerate 0 pre) ([], []))
          @ fst (loan_loop now (enumerate (Suc (length pre)) post) ([], []))" .
  from parser_bad_fragment (3) [OF items bad]
  show "length (filter (\<lambda>er. startswith (message er) (failure_prefix (length pre)))
                  (errors (parse_loan_html now doc))) = 1" .
next
  assume a: "status response < 400 \<and> loan_items (page response) = pre @ item # post
       \<and> spider_extract_loan_data urljoin now item (url response) (length pre) = Inl e"
  then have ok: "status response < 400"
    and items: "loan_items (page response) = pre @ item # post"
    and bad: "spider_extract_loan_data urljoin now item (url response) (length pre) = Inl e"
    by simp_all
  from spider_bad_fragment (1) [OF ok items bad]
  show "spider_errors (fst (propublica_parse urljoin now response sp)) =
        spider_errors sp
        @ spider_errors (fst (spider_loop urljoin now (url response) (enumerate 0 pre) (new_spider, [])))
        @ [\<lparr>error_type = ''ExtractionError'',
            message = ''Failed to extract loan '' @ str_nat (length pre) @ '': '' @ str_exc e,
            timestamp = now (AtFragment (length pre)),
            error_url = None, status_code = None, suggestion = None\<rparr>]
        @ spider_errors (fst (spider_loop urljoin now (url response)
                                (enumerate (Suc (length pre)) post) (new_spider, [])))"
    by (simp add: extraction_error_def)
  from spider_bad_fragment (2) [OF ok items bad]
  show "snd (propublica_parse urljoin now response sp) =
          snd (spider_loop urljoin now (url response) (enumerate 0 pre) (new_spider, []))
          @ snd (spider_loop urljoin now (url response) (enumerate (Suc (length pre)) post)
                   (new_spider, []))" .
  from spider_bad_fragment (3) [OF ok items bad]
  show "scraped_loans (fst (propublica_parse urljoin now response sp)) =
          scraped_loans sp @ snd (propublica_parse urljoin now response sp)" .
  from spider_bad_fragment (4) [OF ok items bad]
  show "length (filter (\<lambda>er. startswith (message er) (failure_prefix (length pre)))
                  (drop (length (spider_errors sp))
                     (spider_errors (fst (propublica_parse urljoin now response sp))))) = 1" .
qed

theorem fragment_failure_is_itemised_witness:
  "map message (errors (parse_loan_html (\<lambda>m. ''t'')
        (page_of [plain_item ''Acme'', faulty_item, plain_item ''Bolt''])))
     = [''Failed to extract loan 1: selector failure'']
   \<and> map recipient (loans (parse_loan_html (\<lambda>m. ''t'')
        (page_of [plain_item ''Acme'', faulty_item, plain_item ''Bolt''])))
     = [''Acme'', ''Bolt'']
   \<and> map message (spider_errors (fst (propublica_parse join_urls (\<lambda>m. ''t'')
        (response_of [plain_item ''Acme'', faulty_item, plain_item ''Bolt'']) new_spider)))
     = [''Failed to extract loan 1: selector failure'']
   \<and> map recipient (snd (propublica_parse join_urls (\<lambda>m. ''t'')
        (response_of [plain_item ''Acme'', faulty_item, plain_item ''Bolt'']) new_spider))
     = [''Acme'', ''Bolt'']"
  using fragment_failure_is_itemised
    [of "page_of [plain_item ''Acme'', faulty_item, plain_item ''Bolt'']"
        "[plain_item ''Acme'']" faulty_item "[plain_item ''Bolt'']" "Exception ''selector failure''"
        "\<lambda>m. ''t''" "response_of [plain_item ''Acme'', faulty_item, plain_item ''Bolt'']"
        join_urls new_spider]
  by (simp add: sample_pages sample_extractions str_nat_examples new_spider_def)

subsection \<open>A fragment without a recipient\<close>

lemma other_records_have_other_index:
  assumes "loan_items doc = pre @ item # post"
      and "loans (parse_loan_html now doc) =
             fst (loan_loop now (enumerate 0 pre) ([], []))
             @ fst (loan_loop now (enumerate (Suc (length pre)) post) ([], []))"
      and "k \<in> set (loans (parse_loan_html now doc))"
  shows "index k \<noteq> length pre + 1"
proof -
  from assms(2,3) have "k \<in> set (fst (loan_loop now (enumerate 0 pre) ([], [])))
      \<or> k \<in> set (fst (loan_loop now (enumerate (Suc (length pre)) post) ([], [])))"
    by auto
  then show ?thesis
  proof
    assume "k \<in> set (fst (loan_loop now (enumerate 0 pre) ([], [])))"
    from loan_loop_loans_origin [OF this] show ?thesis by simp
  next
    assume "k \<in> set (fst (loan_loop now (enumerate (Suc (length pre)) post) ([], [])))"
    from loan_loop_loans_origin [OF this] show ?thesis by simp
  qed
qed

lemma parser_nameless_fragment:
  assumes items: "loan_items doc = pre @ item # post"
      and got: "extract_loan_data item (length pre) = Inr l"
      and nameless: "recipient l = []"
  shows "loans (parse_loan_html now doc) =
           fst (loan_loop now (enumerate 0 pre) ([], []))
           @ fst (loan_loop now (enumerate (Suc (length pre)) post) ([], []))"
    and "errors (parse_loan_html now doc) =
           snd (loan_loop now (enumerate 0 pre) ([], []))
           @ snd (loan_loop now (enumerate (Suc (length pre)) post) ([], []))"
    and "\<forall>k \<in> set (loans (parse_loan_html now doc)). index k \<noteq> length pre + 1"
    and "\<forall>er \<in> set (errors (parse_loan_html now doc)).
           \<not> startswith (message er) (failure_prefix (length pre))"
proof -
  show ls: "loans (parse_loan_html now doc) =
           fst (loan_loop now (enumerate 0 pre) ([], []))
           @ fst (loan_loop now (enumerate (Suc (length pre)) post) ([], []))"
    using loan_loop_dropped [OF got nameless, of now post]
    by (simp add: parse_loan_html_run items)
  show es: "errors (parse_loan_html now doc) =
           snd (loan_loop now (enumerate 0 pre) ([], []))
           @ snd (loan_loop now (enumerate (Suc (length pre)) post) ([], []))"
    using loan_loop_dropped [OF got nameless, of now post]
    by (simp add: parse_loan_html_run items)
  show "\<forall>k \<in> set (loans (parse_loan_html now doc)). index k \<noteq> length pre + 1"
    using other_records_have_other_index [OF items ls] by blast
  have before: "filter (\<lambda>er. startswith (message er) (failure_prefix (length pre)))
                 (snd (loan_loop now (enumerate 0 pre) ([], []))) = []"
  proof (rule other_entries_have_other_index [where n = 0 and m = "length pre" and now = now])
    fix er assume "er \<in> set (snd (loan_loop now (enumerate 0 pre) ([], [])))"
    then show "\<exists>i e. 0 \<le> i \<and> i < 0 + length pre \<and> er = extraction_error now i e"
      by (rule loan_loop_errors_origin)
  qed simp
  have after: "filter (\<lambda>er. startswith (message er) (failure_prefix (length pre)))
                 (snd (loan_loop now (enumerate (Suc (length pre)) post) ([], []))) = []"
  proof (rule other_entries_have_other_index
      [where n = "Suc (length pre)" and m = "length post" and now = now])
    fix er assume "er \<in> set (snd (loan_loop now (enumerate (Suc (length pre)) post) ([], [])))"
    then show "\<exists>i e. Suc (length pre) \<le> i \<and> i < Suc (length pre) + length post
                 \<and> er = extraction_error now i e"
      by (rule loan_loop_errors_origin)
  qed simp
  from before after
  have "filter (\<lambda>er. startswith (message er) (failure_prefix (length pre)))
          (errors (parse_loan_html now doc)) = []"
    by (simp add: es)
  then show "\<forall>er \<in> set (errors (parse_loan_html now doc)).
           \<not> startswith (message er) (failure_prefix (length pre))"
    by (simp add: filter_empty_conv)
qed

lemma spider_nameless_fragment:
  assumes ok: "status response < 400"
      and items: "loan_items (page response) = pre @ item # post"
      and got: "spider_extract_loan_data U now item (url response) (length pre) = Inr l"
      and nameless: "recipient l = []"
  shows "snd (propublica_parse U now response sp) =
           snd (spider_loop U now (url response) (enumerate 0 pre) (new_spider, []))
           @ snd (spider_loop U now (url response) (enumerate (Suc (length pre)) post) (new_spider, []))"
    and "spider_errors (fst (propublica_parse U now response sp)) =
           spider_errors sp
           @ spider_errors (fst (spider_loop U now (url response) (enumerate 0 pre) (new_spider, [])))
           @ spider_errors (fst (spider_loop U now (url response)
                                   (enumerate (Suc (length pre)) post) (new_spider, [])))"
    and "\<forall>k \<in> set (snd (propublica_parse U now response sp)). index k \<noteq> length pre + 1"
    and "\<forall>er \<in> set (drop (length (spider_errors sp))
                        (spider_errors (fst (propublica_parse U now response sp)))).
           \<not> startswith (message er) (failure_prefix (length pre))"
proof -
  have ne: "loan_items (page response) \<noteq> []" by (simp add: items)
  note run = propublica_parse_run [OF ok ne, of U now sp]
  note parts = spider_loop_dropped [OF got nameless, of post]
  show ys: "snd (propublica_parse U now response sp) =
           snd (spider_loop U now (url response) (enumerate 0 pre) (new_spider, []))
           @ snd (spider_loop U now (url response) (enumerate (Suc (length pre)) post) (new_spider, []))"
    by (simp add: run items parts)
  show es: "spider_errors (fst (propublica_parse U now response sp)) =
           spider_errors sp
           @ spider_errors (fst (spider_loop U now (url response) (enumerate 0 pre) (new_spider, [])))
           @ spider_errors (fst (spider_loop U now (url response)
                                   (enumerate (Suc (length pre)) post) (new_spider, [])))"
    by (simp add: run items parts)
  show "\<forall>k \<in> set (snd (propublica_parse U now response sp)). index k \<noteq> length pre + 1"
  proof
    fix k assume "k \<in> set (snd (propublica_parse U now response sp))"
    with ys have "k \<in> set (snd (spider_loop U now (url response) (enumerate 0 pre) (new_spider, [])))
      \<or> k \<in> set (snd (spider_loop U now (url response) (enumerate (Suc (length pre)) post) (new_spider, [])))"
      by auto
    then show "index k \<noteq> length pre + 1"
    proof
      assume "k \<in> set (snd (spider_loop U now (url response) (enumerate 0 pre) (new_spider, [])))"
      from spider_loop_loans_origin [OF this] show ?thesis by simp
    next
      assume "k \<in> set (snd (spider_loop U now (url response) (enumerate (Suc (length pre)) post) (new_spider, [])))"
      from spider_loop_loans_origin [OF this] show ?thesis by simp
    qed
  qed
  have before: "filter (\<lambda>er. startswith (message er) (failure_prefix (length pre)))
        (spider_errors (fst (spider_loop U now (url response) (enumerate 0 pre) (new_spider, [])))) = []"
  proof (rule other_entries_have_other_index [where n = 0 and m = "length pre" and now = now])
    fix er
    assume "er \<in> set (spider_errors (fst (spider_loop U now (url response) (enumerate 0 pre) (new_spider, []))))"
    then show "\<exists>i e. 0 \<le> i \<and> i < 0 + length pre \<and> er = extraction_error now i e"
      by (rule spider_loop_errors_origin)
  qed simp
  have after: "filter (\<lambda>er. startswith (message er) (failure_prefix (length pre)))
        (spider_errors (fst (spider_loop U now (url response)
                               (enumerate (Suc (length pre)) post) (new_spider, [])))) = []"
  proof (rule other_entries_have_other_index
      [where n = "Suc (length pre)" and m = "length post" and now = now])
    fix er
    assume "er \<in> set (spider_errors (fst (spider_loop U now (url response)
                               (enumerate (Suc (length pre)) post) (new_spider, []))))"
    then show "\<exists>i e. Suc (length pre) \<le> i \<and> i < Suc (length pre) + length post
                 \<and> er = extraction_error now i e"
      by (rule spider_loop_errors_origin)
  qed simp
  from before after
  have "filter (\<lambda>er. startswith (message er) (failure_prefix (length pre)))
          (drop (length (spider_errors sp)) (spider_errors (fst (propublica_parse U now response sp)))) = []"
    by (simp add: es)
  then show "\<forall>er \<in> set (drop (length (spider_errors sp))
                        (spider_errors (fst (propublica_parse U now response sp)))).
           \<not> startswith (message er) (failure_prefix (length pre))"
    by (simp add: filter_empty_conv)
qed

text \<open>
  Claim C8. A located fragment whose recipient name is empty when its extraction returns
  (after the structural and the heuristic tier) is dropped in silence: the records and the
  error list are those of the fragments before it followed by those of the fragments after
  it, no record carries its index, and no entry of the error list names it. First the
  parser, then the spider (for the entries and records of the call at hand).
\<close>

theorem nameless_fragment_is_dropped:
  "(loan_items doc = pre @ item # post \<and> extract_loan_data item (length pre) = Inr l
      \<and> recipient l = [] \<longrightarrow>
      loans (parse_loan_html now doc) =
        fst (loan_loop now (enumerate 0 pre) ([], []))
        @ fst (loan_loop now (enumerate (Suc (length pre)) post) ([], []))
      \<and> errors (parse_loan_html now doc) =
        snd (loan_loop now (enumerate 0 pre) ([], []))
        @ snd (loan_loop now (enumerate (Suc (length pre)) post) ([], []))
      \<and> (\<forall>k \<in> set (loans (parse_loan_html now doc)). index k \<noteq> length pre + 1)
      \<and> (\<forall>er \<in> set (errors (parse_loan_html now doc)).
            \<not> startswith (message er) (failure_prefix (length pre))))
   \<and> (status response < 400 \<and> loan_items (page response) = pre @ item # post
       \<and> spider_extract_loan_data urljoin now item (url response) (length pre) = Inr sl
       \<and> recipient sl = [] \<longrightarrow>
      snd (propublica_parse urljoin now response sp) =
        snd (spider_loop urljoin now (url response) (enumerate 0 pre) (new_spider, []))
        @ snd (spider_loop urljoin now (url response) (enumerate (Suc (length pre)) post)
                 (new_spider, []))
      \<and> spider_errors (fst (propublica_parse urljoin now response sp)) =
        spider_errors sp
        @ spider_errors (fst (spider_loop urljoin now (url response) (enumerate 0 pre) (new_spider, [])))
        @ spider_errors (fst (spider_loop urljoin now (url response)
                                (enumerate (Suc (length pre)) post) (new_spider, [])))
      \<and> (\<forall>k \<in> set (snd (propublica_parse urljoin now response sp)). index k \<noteq> length pre + 1)
      \<and> (\<forall>er \<in> set (drop (length (spider_errors sp))
                         (spider_errors (fst (propublica_parse urljoin now response sp)))).
            \<not> startswith (message er) (failure_prefix (length pre))))"
  using parser_nameless_fragment [of doc pre item post l now]
        spider_nameless_fragment [of response pre item post urljoin now sl sp]
  by blast

theorem nameless_fragment_is_dropped_witness:
  "map index (loans (parse_loan_html (\<lambda>m. ''t'')
        (page_of [plain_item ''Acme'', nameless_item, plain_item ''Bolt''])))
     = [1, 3]
   \<and> errors (parse_loan_html (\<lambda>m. ''t'')
        (page_of [plain_item ''Acme'', nameless_item, plain_item ''Bolt''])) = []
   \<and> map index (snd (propublica_parse join_urls (\<lambda>m. ''t'')
        (response_of [plain_item ''Acme'', nameless_item, plain_item ''Bolt'']) new_spider))
     = [1, 3]
   \<and> spider_errors (fst (propublica_parse join_urls (\<lambda>m. ''t'')
        (response_of [plain_item ''Acme'', nameless_item, plain_item ''Bolt'']) new_spider)) = []"
  using nameless_fragment_is_dropped
    [of "page_of [plain_item ''Acme'', nameless_item, plain_item ''Bolt'']"
        "[plain_item ''Acme'']" nameless_item "[plain_item ''Bolt'']"
        "\<lparr>location = [], loan_status = [], loan_amount = [], date_approved = [],
          index = 2, recipient = [], detail_url = [], loan_amount_numeric = None\<rparr>"
        "\<lambda>m. ''t''" "response_of [plain_item ''Acme'', nameless_item, plain_item ''Bolt'']"
        join_urls
        "\<lparr>location = [], loan_status = [], loan_amount = [], date_approved = [],
          index = 2, recipient = [], detail_url = [], loan_amount_numeric = None,
          scraped_at = ''t''\<rparr>" new_spider]
  by (simp add: sample_pages sample_extractions new_spider_def)

subsection \<open>Indices of the records\<close>

lemma loan_loop_sorted:
  "sorted_wrt (<) (map index (fst (loan_loop now (enumerate n xs) ([], []))))"
proof (induction xs arbitrary: n)
  case Nil
  show ?case by simp
next
  case (Cons x xs)
  have step: "loan_loop now (enumerate n (x # xs)) ([], []) =
        loan_loop now (enumerate (Suc n) xs) (loan_loop now [(n, x)] ([], []))"
    using loan_loop_append [of now "[(n, x)]" "enumerate (Suc n) xs" "([], [])"] by simp
  obtain ls es where first: "loan_loop now [(n, x)] ([], []) = (ls, es)"
    by (cases "loan_loop now [(n, x)] ([], [])")
  have ls: "ls = [] \<or> (\<exists>k. ls = [k] \<and> extract_loan_data x n = Inr k)"
    using first by (auto split: sum.splits if_splits)
  have all: "fst (loan_loop now (enumerate n (x # xs)) ([], [])) =
        ls @ fst (loan_loop now (enumerate (Suc n) xs) ([], []))"
    using step first loan_loop_from [of now "enumerate (Suc n) xs" ls es] by simp
  have later: "Suc n < index l"
    if "l \<in> set (fst (loan_loop now (enumerate (Suc n) xs) ([], [])))" for l
    using loan_loop_loans_origin [OF that] by simp
  from ls show ?case
  proof
    assume "ls = []"
    with all Cons.IH [of "Suc n"] show ?thesis by simp
  next
    assume "\<exists>k. ls = [k] \<and> extract_loan_data x n = Inr k"
    then obtain k where k: "ls = [k]" "extract_loan_data x n = Inr k" by blast
    then have "index k = n + 1" by (simp add: extract_loan_data_index)
    with later have "\<forall>l \<in> set (fst (loan_loop now (enumerate (Suc n) xs) ([], []))). index k < index l"
      by auto
    with all k Cons.IH [of "Suc n"] show ?thesis by simp
  qed
qed

lemma spider_loop_sorted:
  "sorted_wrt (<) (map index (snd (spider_loop U now u (enumerate n xs) (new_spider, []))))"
proof (induction xs arbitrary: n)
  case Nil
  show ?case by simp
next
  case (Cons x xs)
  have step: "spider_loop U now u (enumerate n (x # xs)) (new_spider, []) =
        spider_loop U now u (enumerate (Suc n) xs) (spider_loop U now u [(n, x)] (new_spider, []))"
    using spider_loop_append [of U now u "[(n, x)]" "enumerate (Suc n) xs" "(new_spider, [])"] by simp
  obtain sp ys where first: "spider_loop U now u [(n, x)] (new_spider, []) = (sp, ys)"
    by (cases "spider_loop U now u [(n, x)] (new_spider, [])")
  have ys: "ys = [] \<or> (\<exists>k. ys = [k] \<and> spider_extract_loan_data U now x u n = Inr k)"
    using first by (auto split: sum.splits if_splits)
  have all: "snd (spider_loop U now u (enumerate n (x # xs)) (new_spider, [])) =
        ys @ snd (spider_loop U now u (enumerate (Suc n) xs) (new_spider, []))"
    using step first spider_loop_from [of U now u "enumerate (Suc n) xs" sp ys] by simp
  have later: "Suc n < index l"
    if "l \<in> set (snd (spider_loop U now u (enumerate (Suc n) xs) (new_spider, [])))" for l
    using spider_loop_loans_origin [OF that] by simp
  from ys show ?case
  proof
    assume "ys = []"
    with all Cons.IH [of "Suc n"] show ?thesis by simp
  next
    assume "\<exists>k. ys = [k] \<and> spider_extract_loan_data U now x u n = Inr k"
    then obtain k where k: "ys = [k]" "spider_extract_loan_data U now x u n = Inr k" by blast
    then have "index k = n + 1" by (simp add: spider_extract_loan_data_index)
    with later have "\<forall>l \<in> set (snd (spider_loop U now u (enumerate (Suc n) xs) (new_spider, []))). index k < index l"
      by auto
    with all k Cons.IH [of "Suc n"] show ?thesis by simp
  qed
qed

lemma propublica_parse_yield:
  "snd (propublica_parse U now response sp) =
     (if status response \<ge> 400 \<or> loan_items (page response) = [] then []
      else snd (spider_loop U now (url response) (enumerate 0 (loan_items (page response)))
                  (new_spider, [])))"
proof (cases "status response \<ge> 400 \<or> loan_items (page response) = []")
  case True
  then show ?thesis by (auto simp: propublica_parse_def)
next
  case False
  then show ?thesis
    using propublica_parse_run [of response U now sp] by simp
qed

lemma parser_record_position:
  assumes "l \<in> set (loans (parse_loan_html now doc))"
  shows "1 \<le> index l \<and> index l \<le> length (loan_items doc)
         \<and> extract_loan_data (loan_items doc ! (index l - 1)) (index l - 1) = Inr l"
  using loan_loop_loans_origin [of l now 0 "loan_items doc"] assms
  by (simp add: parse_loan_html_run)

lemma spider_record_position:
  assumes "l \<in> set (snd (propublica_parse U now response sp))"
  shows "1 \<le> index l \<and> index l \<le> length (loan_items (page response))
         \<and> spider_extract_loan_data U now (loan_items (page response) ! (index l - 1))
              (url response) (index l - 1) = Inr l"
proof (cases "status response \<ge> 400 \<or> loan_items (page response) = []")
  case True
  with assms show ?thesis by (simp add: propublica_parse_yield)
next
  case False
  with assms have "l \<in> set (snd (spider_loop U now (url response)
      (enumerate 0 (loan_items (page response))) (new_spider, [])))"
    by (simp add: propublica_parse_yield)
  from spider_loop_loans_origin [OF this] show ?thesis by simp
qed

text \<open>
  Claim C10. Every record a run emits is the extraction of the fragment at position
  \<open>index - 1\<close> of the located fragments, so its index is one more than that position and
  lies between 1 and the number of fragments; along the records of one run the indices
  increase strictly. They need not be contiguous: with a second fragment that has no
  recipient, or that raises, the indices are 1 and 3. Stated for the parser's \<open>loans\<close> and
  for the records one call of the spider's \<open>parse\<close> yields.
\<close>

theorem record_index_is_position:
  "(\<forall>l \<in> set (loans (parse_loan_html now doc)).
       1 \<le> index l \<and> index l \<le> length (loan_items doc)
       \<and> extract_loan_data (loan_items doc ! (index l - 1)) (index l - 1) = Inr l)
   \<and> sorted_wrt (<) (map index (loans (parse_loan_html now doc)))
   \<and> (\<forall>l \<in> set (snd (propublica_parse urljoin now response sp)).
       1 \<le> index l \<and> index l \<le> length (loan_items (page response))
       \<and> spider_extract_loan_data urljoin now (loan_items (page response) ! (index l - 1))
            (url response) (index l - 1) = Inr l)
   \<and> sorted_wrt (<) (map index (snd (propublica_parse urljoin now response sp)))
   \<and> map index (loans (parse_loan_html now
         (page_of [plain_item ''Acme'', nameless_item, plain_item ''Bolt'']))) = [1, 3]
   \<and> map index (loans (parse_loan_html now
         (page_of [plain_item ''Acme'', faulty_item, plain_item ''Bolt'']))) = [1, 3]
   \<and> map index (snd (propublica_parse join_urls now
         (response_of [plain_item ''Acme'', nameless_item, plain_item ''Bolt'']) sp)) = [1, 3]
   \<and> map index (snd (propublica_parse join_urls now
         (response_of [plain_item ''Acme'', faulty_item, plain_item ''Bolt'']) sp)) = [1, 3]"
proof -
  have p1: "\<forall>l \<in> set (loans (parse_loan_html now doc)).
       1 \<le> index l \<and> index l \<le> length (loan_items doc)
       \<and> extract_loan_data (loan_items doc ! (index l - 1)) (index l - 1) = Inr l"
    using parser_record_position by blast
  have p2: "sorted_wrt (<) (map index (loans (parse_loan_html now doc)))"
    by (simp add: parse_loan_html_run loan_loop_sorted)
  have p3: "\<forall>l \<in> set (snd (propublica_parse urljoin now response sp)).
       1 \<le> index l \<and> index l \<le> length (loan_items (page response))
       \<and> spider_extract_loan_data urljoin now (loan_items (page response) ! (index l - 1))
            (url response) (index l - 1) = Inr l"
    using spider_record_position by blast
  have p4: "sorted_wrt (<) (map index (snd (propublica_parse urljoin now response sp)))"
    by (simp add: propublica_parse_yield spider_loop_sorted)
  have p5: "map index (loans (parse_loan_html now
         (page_of [plain_item ''Acme'', nameless_item, plain_item ''Bolt'']))) = [1, 3]"
    by (simp add: parse_loan_html_run sample_pages sample_extractions)
  have p6: "map index (loans (parse_loan_html now
         (page_of [plain_item ''Acme'', faulty_item, plain_item ''Bolt'']))) = [1, 3]"
    by (simp add: parse_loan_html_run sample_pages sample_extractions)
  have p7: "map index (snd (propublica_parse join_urls now
         (response_of [plain_item ''Acme'', nameless_item, plain_item ''Bolt'']) sp)) = [1, 3]"
    by (simp add: propublica_parse_yield sample_pages sample_extractions)
  have p8: "map index (snd (propublica_parse join_urls now
         (response_of [plain_item ''Acme'', faulty_item, plain_item ''Bolt'']) sp)) = [1, 3]"
    by (simp add: propublica_parse_yield sample_pages sample_extractions)
  show ?thesis
    by (intro conjI p1 p2 p3 p4 p5 p6 p7 p8)
qed

theorem record_index_is_position_witness:
  "index (hd (loans (parse_loan_html (\<lambda>m. ''t'') (page_of [nameless_item, plain_item ''Bolt''])))) = 2
   \<and> extract_loan_data ([nameless_item, plain_item ''Bolt''] ! 1) 1
       = Inr (hd (loans (parse_loan_html (\<lambda>m. ''t'') (page_of [nameless_item, plain_item ''Bolt'']))))
   \<and> sorted_wrt (<) (map index (loans (parse_loan_html (\<lambda>m. ''t'')
         (page_of [nameless_item, plain_item ''Bolt'']))))"
proof -
  have ls: "loans (parse_loan_html (\<lambda>m. ''t'') (page_of [nameless_item, plain_item ''Bolt''])) =
      [\<lparr>location = [], loan_status = [], loan_amount = [], date_approved = [],
        index = 2, recipient = ''Bolt'', detail_url = [], loan_amount_numeric = None\<rparr>]"
    by (simp add: parse_loan_html_run sample_pages sample_extractions)
  then have "hd (loans (parse_loan_html (\<lambda>m. ''t'') (page_of [nameless_item, plain_item ''Bolt''])))
      \<in> set (loans (parse_loan_html (\<lambda>m. ''t'') (page_of [nameless_item, plain_item ''Bolt''])))"
    by simp
  with record_index_is_position
    [of "\<lambda>m. ''t''" "page_of [nameless_item, plain_item ''Bolt'']"]
  show ?thesis
    by (simp add: ls sample_pages)
qed

subsection \<open>A page without fragments\<close>

text \<open>
  Claim C5. When neither boundary selector locates a fragment, the spider ends the call
  with no record and exactly one \<open>NoDataFound\<close> entry. The parser has no such branch: its
  loop runs over nothing and it returns no record and an empty error list, where the claim
  asks for one advisory entry.
\<close>

theorem no_fragments_located:
  "(loan_items doc = [] \<longrightarrow>
      loans (parse_loan_html now doc) = [] \<and> errors (parse_loan_html now doc) = []
      \<and> total_loans (parse_loan_html now doc) = 0)
   \<and> (status response < 400 \<and> loan_items (page response) = [] \<longrightarrow>
      propublica_parse urljoin now response sp =
        (sp\<lparr>spider_errors := spider_errors sp @
             [\<lparr>error_type = ''NoDataFound'',
               message = ''No loan entries found on page. The page structure may have changed.'',
               timestamp = now AtDocument,
               error_url = Some (url response),
               status_code = None,
               suggestion = None\<rparr>]\<rparr>, []))"
  by (simp add: parse_loan_html_def propublica_parse_def Let_def)

theorem no_fragments_located_witness:
  "errors (parse_loan_html (\<lambda>m. ''t'') (page_of [])) = []
   \<and> loans (parse_loan_html (\<lambda>m. ''t'') (page_of [])) = []
   \<and> map error_type (spider_errors (fst (propublica_parse join_urls (\<lambda>m. ''t'')
        (response_of []) new_spider))) = [''NoDataFound'']"
  using no_fragments_located [of "page_of []" "\<lambda>m. ''t''" "response_of []" join_urls new_spider]
  by (simp add: loan_items_def page_of_def response_of_def new_spider_def)

subsection \<open>Two runs over one document\<close>







section \<open>Properties of the two extraction tiers\<close>

lemma fields_of_fields [simp]: "fields_of (fs :: fields) = fs"
  by (simp add: fields_of_def)

lemma fold_keeps_field:
  assumes "\<And>v s. g s \<noteq> [] \<Longrightarrow> g (f v s) = g s" and "g s \<noteq> []"
  shows "g (fold f vs s) = g s"
  using assms(2)
proof (induction vs arbitrary: s)
  case Nil
  show ?case by simp
next
  case (Cons v vs)
  from Cons.prems have "g (f v s) = g s" by (rule assms(1))
  with Cons.prems Cons.IH [of "f v s"] show ?case by simp
qed

lemma alternative_step_keeps:
  "location fs \<noteq> [] \<Longrightarrow> location (alternative_step v fs) = location fs"
  "loan_status fs \<noteq> [] \<Longrightarrow> loan_status (alternative_step v fs) = loan_status fs"
  "loan_amount fs \<noteq> [] \<Longrightarrow> loan_amount (alternative_step v fs) = loan_amount fs"
  "date_approved fs \<noteq> [] \<Longrightarrow> date_approved (alternative_step v fs) = date_approved fs"
  by (simp_all add: alternative_step_def Let_def)

lemma spider_alternative_step_keeps:
  "location fs \<noteq> [] \<Longrightarrow> location (spider_alternative_step v fs) = location fs"
  "loan_status fs \<noteq> [] \<Longrightarrow> loan_status (spider_alternative_step v fs) = loan_status fs"
  "loan_amount fs \<noteq> [] \<Longrightarrow> loan_amount (spider_alternative_step v fs) = loan_amount fs"
  "date_approved fs \<noteq> [] \<Longrightarrow> date_approved (spider_alternative_step v fs) = date_approved fs"
  by (simp_all add: spider_alternative_step_def)

lemma alternative_scan_keeps:
  "location fs \<noteq> [] \<Longrightarrow> location (fold alternative_step vs fs) = location fs"
  "loan_status fs \<noteq> [] \<Longrightarrow> loan_status (fold alternative_step vs fs) = loan_status fs"
  "loan_amount fs \<noteq> [] \<Longrightarrow> loan_amount (fold alternative_step vs fs) = loan_amount fs"
  "date_approved fs \<noteq> [] \<Longrightarrow> date_approved (fold alternative_step vs fs) = date_approved fs"
  by (rule fold_keeps_field, erule alternative_step_keeps, assumption)+

lemma spider_alternative_scan_keeps:
  "location fs \<noteq> [] \<Longrightarrow> location (fold spider_alternative_step vs fs) = location fs"
  "loan_status fs \<noteq> [] \<Longrightarrow> loan_status (fold spider_alternative_step vs fs) = loan_status fs"
  "loan_amount fs \<noteq> [] \<Longrightarrow> loan_amount (fold spider_alternative_step vs fs) = loan_amount fs"
  "date_approved fs \<noteq> [] \<Longrightarrow> date_approved (fold spider_alternative_step vs fs) = date_approved fs"
  by (rule fold_keeps_field, erule spider_alternative_step_keeps, assumption)+

text \<open>What the extraction of a fragment is, once its first queries have returned.\<close>

lemma extract_loan_data_gate:
  assumes "recipient_text item = Inr rt" and "recipient_href item = Inr rh"
      and "flex_details item = Inr fs"
  shows "location fs \<noteq> [] \<and> loan_amount fs \<noteq> [] \<Longrightarrow>
           \<exists>l. extract_loan_data item idx = Inr l \<and> fields_of l = fs"
    and "location fs = [] \<or> loan_amount fs = [] \<Longrightarrow> all_values item = Inr vs \<Longrightarrow>
           \<exists>l. extract_loan_data item idx = Inr l
               \<and> fields_of l = fold alternative_step (stripped_values vs) fs"
    and "location fs = [] \<or> loan_amount fs = [] \<Longrightarrow> all_values item = Inl e \<Longrightarrow>
           extract_loan_data item idx = Inl e"
  using assms
  by (auto simp: extract_loan_data_def then_q_def Let_def parse_amount_value fields_of_def)

lemma spider_extract_loan_data_gate:
  assumes "recipient_text item = Inr rt" and "recipient_href item = Inr rh"
      and "get_or rh [] = [] \<or> urljoin u (get_or rh []) = Inr joined"
      and "flex_details item = Inr fs"
  shows "location fs \<noteq> [] \<or> loan_amount fs \<noteq> [] \<Longrightarrow>
           \<exists>l. spider_extract_loan_data urljoin now item u idx = Inr l \<and> fields_of l = fs"
    and "location fs = [] \<and> loan_amount fs = [] \<Longrightarrow> all_values item = Inr vs \<Longrightarrow>
           \<exists>l. spider_extract_loan_data urljoin now item u idx = Inr l
               \<and> fields_of l = fold spider_alternative_step (stripped_values vs) fs"
    and "location fs = [] \<and> loan_amount fs = [] \<Longrightarrow> all_values item = Inl e \<Longrightarrow>
           spider_extract_loan_data urljoin now item u idx = Inl e"
  using assms
  by (auto simp: spider_extract_loan_data_def then_q_def Let_def parse_amount_value fields_of_def)

text \<open>Conversely, the fields of whatever an extraction returns.\<close>

lemma extract_loan_data_fields:
  assumes "extract_loan_data item idx = Inr l" and "flex_details item = Inr fs"
  shows "fields_of l = fs
         \<or> (\<exists>vs. all_values item = Inr vs
               \<and> fields_of l = fold alternative_step (stripped_values vs) fs)"
  using assms
  by (auto simp: extract_loan_data_def then_q_Inr_iff Let_def fields_of_def split: if_splits)

lemma spider_extract_loan_data_fields:
  assumes "spider_extract_loan_data urljoin now item u idx = Inr l" and "flex_details item = Inr fs"
  shows "fields_of l = fs
         \<or> (\<exists>vs. all_values item = Inr vs
               \<and> fields_of l = fold spider_alternative_step (stripped_values vs) fs)"
  using assms
  by (auto simp: spider_extract_loan_data_def then_q_Inr_iff Let_def fields_of_def split: if_splits)

text \<open>
  The structural result of a field is what the block loop leaves in its variable: each
  block whose label names the field assigns it, with an empty value as with any other, so
  the last such block decides.
\<close>

lemma detail_blocks_append:
  "detail_blocks (xs @ ys) fs =
     (case detail_blocks xs fs of Inl e \<Rightarrow> Inl e | Inr fs' \<Rightarrow> detail_blocks ys fs')"
  by (induction xs arbitrary: fs) (auto split: sum.splits)

lemma strip_empty: "strip [] = []"
  by (simp add: strip_def)

lemma detail_block_field:
  assumes "detail_block b fs = Inr fs'"
      and "label_text b = Inr lab" and "value_text b = Inr val"
  shows "field_value f fs' =
           (if label_field (strip (get_or lab [])) = Some f then strip (get_or val [])
            else field_value f fs)"
  using assms
  by (cases f) (auto simp: detail_block_def then_q_def Let_def label_field_def field_value_def
      strip_empty)

lemma detail_block_returns:
  assumes "detail_block b fs = Inr fs'"
  shows "\<exists>lab val. label_text b = Inr lab \<and> value_text b = Inr val"
  using assms by (auto simp: detail_block_def then_q_Inr_iff)

lemma detail_blocks_skip:
  assumes "detail_blocks post fs = Inr fs'"
      and "\<forall>b' \<in> set post. \<forall>lab'. label_text b' = Inr lab' \<longrightarrow>
             label_field (strip (get_or lab' [])) \<noteq> Some f"
  shows "field_value f fs' = field_value f fs"
  using assms
proof (induction post arbitrary: fs)
  case Nil
  then show ?case by simp
next
  case (Cons b post)
  from Cons.prems(1) obtain fs1 where b: "detail_block b fs = Inr fs1"
      and rest: "detail_blocks post fs1 = Inr fs'"
    by (auto split: sum.splits)
  from detail_block_returns [OF b] obtain lab val
    where q: "label_text b = Inr lab" "value_text b = Inr val" by blast
  from Cons.prems(2) q have "label_field (strip (get_or lab [])) \<noteq> Some f" by simp
  with detail_block_field [OF b q, of f] have "field_value f fs1 = field_value f fs" by simp
  moreover from Cons.IH [OF rest] Cons.prems(2) have "field_value f fs' = field_value f fs1"
    by simp
  ultimately show ?case by simp
qed

lemma structural_last_block:
  assumes fc: "flex_container item = Inr fc" and blocks: "concat fc = pre @ b # post"
      and fs: "flex_details item = Inr fs"
      and lab: "label_text b = Inr lab" and val: "value_text b = Inr val"
      and names: "label_field (strip (get_or lab [])) = Some f"
      and later: "\<forall>b' \<in> set post. \<forall>lab'. label_text b' = Inr lab' \<longrightarrow>
             label_field (strip (get_or lab' [])) \<noteq> Some f"
  shows "field_value f fs = strip (get_or val [])"
proof -
  from blocks have "fc \<noteq> []" by auto
  with fc fs blocks have "detail_blocks (pre @ b # post) initial_fields = Inr fs"
    by (simp add: flex_details_def then_q_def)
  then obtain fs0 fs1 where "detail_blocks pre initial_fields = Inr fs0"
      and b: "detail_block b fs0 = Inr fs1" and rest: "detail_blocks post fs1 = Inr fs"
    by (auto simp: detail_blocks_append split: sum.splits)
  from detail_block_field [OF b lab val, of f] names
  have "field_value f fs1 = strip (get_or val [])" by simp
  with detail_blocks_skip [OF rest later] show ?thesis by simp
qed

subsection \<open>The labelled sample fragments\<close>

lemma strip_more_examples:
  "strip ''Location'' = ''Location''" "strip ''Loan Amount'' = ''Loan Amount''"
  "strip ''Austin, TX'' = ''Austin, TX''" "strip ''$1,000'' = ''$1,000''"
  "strip ''Forgiven'' = ''Forgiven''" "strip '' TX'' = ''TX''" "strip '' Texas'' = ''Texas''"
  by (simp_all add: strip_def isspace_def)

lemma stripped_values_example:
  "stripped_values [''Austin, TX'', ''$1,000'', ''Forgiven''] = [''Austin, TX'', ''$1,000'', ''Forgiven'']"
  by (simp add: stripped_values_def strip_more_examples)

lemma flex_details_located_item:
  "flex_details located_item =
     Inr \<lparr>location = ''Austin, TX'', loan_status = [], loan_amount = [], date_approved = []\<rparr>"
  by (simp add: flex_details_def located_item_def then_q_def detail_block_def labelled_def
      get_or_def initial_fields_def strip_more_examples)

lemma flex_details_priced_item:
  "flex_details priced_item =
     Inr \<lparr>location = ''Austin, TX'', loan_status = [], loan_amount = ''$1,000'', date_approved = []\<rparr>"
  by (simp add: flex_details_def priced_item_def then_q_def detail_block_def labelled_def
      get_or_def initial_fields_def strip_more_examples)

lemma scan_example:
  "alternative_step ''Forgiven'' (alternative_step ''$1,000'' (alternative_step ''Austin, TX''
     \<lparr>location = ''Austin, TX'', loan_status = [], loan_amount = [], date_approved = []\<rparr>))
   = \<lparr>location = ''Austin, TX'', loan_status = ''Forgiven'', loan_amount = ''$1,000'',
      date_approved = []\<rparr>"
  by (simp add: alternative_step_def status_keywords_def month_tokens_def)

lemma parse_amount_thousand: "parse_amount ''$1,000'' = Inr (Some (Finite 1000))"
proof -
  have "re_sub_amount ''$1,000'' = ''1000''"
    by (simp add: re_sub_amount_def isspace_def)
  moreover have "number ''1000'' = Some (''1000'', [], [])"
    by (simp add: number_def digitpart_def isdigit_def after_point_def)
  moreover have "digits_value ''1000'' = 1000"
    by (simp add: digits_value_def digit_value_def)
  ultimately show ?thesis
    by (simp add: parse_amount_value floatvalue_def absfloatvalue_def lower_def lower_char_def
        floatnumber_def)
qed

lemma extract_located_item:
  "extract_loan_data located_item idx =
     Inr \<lparr>location = ''Austin, TX'', loan_status = ''Forgiven'', loan_amount = ''$1,000'',
          date_approved = [], index = idx + 1, recipient = ''Acme'', detail_url = [],
          loan_amount_numeric = Some (Finite 1000)\<rparr>"
proof -
  have q: "recipient_text located_item = Inr (Some ''Acme'')" "recipient_href located_item = Inr None"
    "all_values located_item = Inr [''Austin, TX'', ''$1,000'', ''Forgiven'']"
    by (simp_all add: located_item_def)
  show ?thesis
    by (simp add: extract_loan_data_def q flex_details_located_item then_q_def get_or_def
        stripped_values_example scan_example parse_amount_thousand strip_examples)
qed

lemma extract_priced_item:
  "extract_loan_data priced_item idx =
     Inr \<lparr>location = ''Austin, TX'', loan_status = [], loan_amount = ''$1,000'',
          date_approved = [], index = idx + 1, recipient = ''Acme'', detail_url = [],
          loan_amount_numeric = Some (Finite 1000)\<rparr>"
proof -
  have q: "recipient_text priced_item = Inr (Some ''Acme'')" "recipient_href priced_item = Inr None"
    by (simp_all add: priced_item_def)
  show ?thesis
    by (simp add: extract_loan_data_def q flex_details_priced_item then_q_def get_or_def
        parse_amount_thousand strip_examples)
qed

lemma spider_extract_located_item:
  "spider_extract_loan_data join_urls now located_item u idx =
     Inr \<lparr>location = ''Austin, TX'', loan_status = [], loan_amount = [],
          date_approved = [], index = idx + 1, recipient = ''Acme'', detail_url = [],
          loan_amount_numeric = None, scraped_at = now (AtFragment idx)\<rparr>"
proof -
  have q: "recipient_text located_item = Inr (Some ''Acme'')" "recipient_href located_item = Inr None"
    by (simp_all add: located_item_def)
  show ?thesis
    by (simp add: spider_extract_loan_data_def q flex_details_located_item then_q_def get_or_def
        parse_amount_def strip_examples)
qed

subsection \<open>Precedence of the structural tier\<close>

lemma field_of_fields_of:
  "fields_of l = fs \<Longrightarrow>
   location l = location fs \<and> loan_status l = loan_status fs
   \<and> loan_amount l = loan_amount fs \<and> date_approved l = date_approved fs"
  by (auto simp: fields_of_def)

lemma flex_details_ignores_all_values:
  "flex_details (item\<lparr>all_values := vs\<rparr>) = flex_details item"
  by (simp add: flex_details_def)

lemma parser_structural_wins:
  assumes fs: "flex_details item = Inr fs" and l: "extract_loan_data item idx = Inr l"
  shows "(location fs \<noteq> [] \<longrightarrow> location l = location fs)
       \<and> (loan_status fs \<noteq> [] \<longrightarrow> loan_status l = loan_status fs)
       \<and> (loan_amount fs \<noteq> [] \<longrightarrow> loan_amount l = loan_amount fs)
       \<and> (date_approved fs \<noteq> [] \<longrightarrow> date_approved l = date_approved fs)
       \<and> (\<exists>l0. extract_loan_data (item\<lparr>all_values := Inr []\<rparr>) idx = Inr l0 \<and> fields_of l0 = fs)"
proof -
  from extract_loan_data_fields [OF l fs]
  have keep: "(location fs \<noteq> [] \<longrightarrow> location l = location fs)
       \<and> (loan_status fs \<noteq> [] \<longrightarrow> loan_status l = loan_status fs)
       \<and> (loan_amount fs \<noteq> [] \<longrightarrow> loan_amount l = loan_amount fs)
       \<and> (date_approved fs \<noteq> [] \<longrightarrow> date_approved l = date_approved fs)"
  proof
    assume "fields_of l = fs"
    from field_of_fields_of [OF this] show ?thesis by simp
  next
    assume "\<exists>vs. all_values item = Inr vs
               \<and> fields_of l = fold alternative_step (stripped_values vs) fs"
    then obtain vs where "fields_of l = fold alternative_step (stripped_values vs) fs" by blast
    from field_of_fields_of [OF this] show ?thesis
      by (simp add: alternative_scan_keeps)
  qed
  from l obtain rt rh where q: "recipient_text item = Inr rt" "recipient_href item = Inr rh"
    by (auto simp: extract_loan_data_def then_q_Inr_iff)
  have "\<exists>l0. extract_loan_data (item\<lparr>all_values := Inr []\<rparr>) idx = Inr l0 \<and> fields_of l0 = fs"
  proof (cases "location fs \<noteq> [] \<and> loan_amount fs \<noteq> []")
    case True
    from extract_loan_data_gate(1) [of "item\<lparr>all_values := Inr []\<rparr>" rt rh fs, OF _ _ _ True]
    show ?thesis by (simp add: q fs flex_details_ignores_all_values)
  next
    case False
    then have open_gate: "location fs = [] \<or> loan_amount fs = []" by simp
    from extract_loan_data_gate(2) [of "item\<lparr>all_values := Inr []\<rparr>" rt rh fs "[]", OF _ _ _ open_gate]
    show ?thesis by (simp add: q fs flex_details_ignores_all_values stripped_values_def)
  qed
  with keep show ?thesis by simp
qed

lemma spider_structural_wins:
  assumes fs: "flex_details item = Inr fs"
      and l: "spider_extract_loan_data urljoin now item u idx = Inr l"
  shows "(location fs \<noteq> [] \<longrightarrow> location l = location fs)
       \<and> (loan_status fs \<noteq> [] \<longrightarrow> loan_status l = loan_status fs)
       \<and> (loan_amount fs \<noteq> [] \<longrightarrow> loan_amount l = loan_amount fs)
       \<and> (date_approved fs \<noteq> [] \<longrightarrow> date_approved l = date_approved fs)
       \<and> (\<exists>l0. spider_extract_loan_data urljoin now (item\<lparr>all_values := Inr []\<rparr>) u idx = Inr l0
               \<and> fields_of l0 = fs)"
proof -
  from spider_extract_loan_data_fields [OF l fs]
  have keep: "(location fs \<noteq> [] \<longrightarrow> location l = location fs)
       \<and> (loan_status fs \<noteq> [] \<longrightarrow> loan_status l = loan_status fs)
       \<and> (loan_amount fs \<noteq> [] \<longrightarrow> loan_amount l = loan_amount fs)
       \<and> (date_approved fs \<noteq> [] \<longrightarrow> date_approved l = date_approved fs)"
  proof
    assume "fields_of l = fs"
    from field_of_fields_of [OF this] show ?thesis by simp
  next
    assume "\<exists>vs. all_values item = Inr vs
               \<and> fields_of l = fold spider_alternative_step (stripped_values vs) fs"
    then obtain vs where "fields_of l = fold spider_alternative_step (stripped_values vs) fs" by blast
    from field_of_fields_of [OF this] show ?thesis
      by (simp add: spider_alternative_scan_keeps)
  qed
  from l obtain rt rh joined where q: "recipient_text item = Inr rt" "recipient_href item = Inr rh"
      "get_or rh [] = [] \<or> urljoin u (get_or rh []) = Inr joined"
    by (auto simp: spider_extract_loan_data_def then_q_Inr_iff Let_def split: if_splits)
  have "\<exists>l0. spider_extract_loan_data urljoin now (item\<lparr>all_values := Inr []\<rparr>) u idx = Inr l0
               \<and> fields_of l0 = fs"
  proof (cases "location fs \<noteq> [] \<or> loan_amount fs \<noteq> []")
    case True
    from spider_extract_loan_data_gate(1)
      [of "item\<lparr>all_values := Inr []\<rparr>" rt rh urljoin u joined fs, OF _ _ _ _ True]
    show ?thesis by (simp add: q fs flex_details_ignores_all_values)
  next
    case False
    then have open_gate: "location fs = [] \<and> loan_amount fs = []" by simp
    from spider_extract_loan_data_gate(2)
      [of "item\<lparr>all_values := Inr []\<rparr>" rt rh urljoin u joined fs "[]", OF _ _ _ _ open_gate]
    show ?thesis by (simp add: q fs flex_details_ignores_all_values stripped_values_def)
  qed
  with keep show ?thesis by simp
qed

text \<open>Two more sample fragments, with more than one block labelled as the location.\<close>

lemma strip_relocated_examples:
  "strip ''Waco, TX'' = ''Waco, TX''" "strip ''Dallas, TX'' = ''Dallas, TX''"
  "strip ''Loan Status'' = ''Loan Status''"
  by (simp_all add: strip_def isspace_def)

lemma flex_details_relocated_item:
  "flex_details relocated_item =
     Inr \<lparr>location = ''Waco, TX'', loan_status = ''Forgiven'', loan_amount = [],
          date_approved = []\<rparr>"
  by (simp add: flex_details_def relocated_item_def then_q_def detail_block_def labelled_def
      get_or_def initial_fields_def strip_more_examples strip_relocated_examples)

lemma flex_details_overwritten_item:
  "flex_details overwritten_item = Inr initial_fields"
  by (simp add: flex_details_def overwritten_item_def then_q_def detail_block_def labelled_def
      get_or_def initial_fields_def strip_more_examples)

lemma stripped_values_relocated:
  "stripped_values [''Dallas, TX'', ''Austin, TX'', ''Waco, TX'', ''Forgiven'', ''$1,000'']
     = [''Dallas, TX'', ''Austin, TX'', ''Waco, TX'', ''Forgiven'', ''$1,000'']"
  "stripped_values [''Dallas, TX'', ''Austin, TX''] = [''Dallas, TX'', ''Austin, TX'']"
  by (simp_all add: stripped_values_def strip_more_examples strip_relocated_examples)

lemma relocated_scan:
  "alternative_step ''$1,000'' (alternative_step ''Forgiven'' (alternative_step ''Waco, TX''
     (alternative_step ''Austin, TX'' (alternative_step ''Dallas, TX''
     \<lparr>location = ''Waco, TX'', loan_status = ''Forgiven'', loan_amount = [],
      date_approved = []\<rparr>))))
   = \<lparr>location = ''Waco, TX'', loan_status = ''Forgiven'', loan_amount = ''$1,000'',
      date_approved = []\<rparr>"
  by (simp add: alternative_step_def status_keywords_def month_tokens_def)

lemma overwritten_scan:
  "alternative_step ''Austin, TX'' (alternative_step ''Dallas, TX''
     \<lparr>location = [], loan_status = [], loan_amount = [], date_approved = []\<rparr>)
   = \<lparr>location = ''Dallas, TX'', loan_status = [], loan_amount = [], date_approved = []\<rparr>"
  "spider_alternative_step ''Austin, TX'' (spider_alternative_step ''Dallas, TX''
     \<lparr>location = [], loan_status = [], loan_amount = [], date_approved = []\<rparr>)
   = \<lparr>location = ''Dallas, TX'', loan_status = [], loan_amount = [], date_approved = []\<rparr>"
  by (simp_all add: alternative_step_def spider_alternative_step_def status_keywords_def
      month_tokens_def strip_more_examples)

lemma extract_relocated_item:
  "extract_loan_data relocated_item idx =
     Inr \<lparr>location = ''Waco, TX'', loan_status = ''Forgiven'', loan_amount = ''$1,000'',
          date_approved = [], index = idx + 1, recipient = ''Acme'', detail_url = [],
          loan_amount_numeric = Some (Finite 1000)\<rparr>"
proof -
  have q: "recipient_text relocated_item = Inr (Some ''Acme'')"
    "recipient_href relocated_item = Inr None"
    "all_values relocated_item
       = Inr [''Dallas, TX'', ''Austin, TX'', ''Waco, TX'', ''Forgiven'', ''$1,000'']"
    by (simp_all add: relocated_item_def)
  show ?thesis
    by (simp add: extract_loan_data_def q flex_details_relocated_item then_q_def get_or_def
        stripped_values_relocated relocated_scan parse_amount_thousand strip_examples)
qed

lemma spider_extract_relocated_item:
  "spider_extract_loan_data join_urls now relocated_item u idx =
     Inr \<lparr>location = ''Waco, TX'', loan_status = ''Forgiven'', loan_amount = [],
          date_approved = [], index = idx + 1, recipient = ''Acme'', detail_url = [],
          loan_amount_numeric = None, scraped_at = now (AtFragment idx)\<rparr>"
proof -
  have q: "recipient_text relocated_item = Inr (Some ''Acme'')"
    "recipient_href relocated_item = Inr None"
    by (simp_all add: relocated_item_def)
  show ?thesis
    by (simp add: spider_extract_loan_data_def q flex_details_relocated_item then_q_def get_or_def
        parse_amount_def strip_examples)
qed

lemma extract_overwritten_item:
  "extract_loan_data overwritten_item idx =
     Inr \<lparr>location = ''Dallas, TX'', loan_status = [], loan_amount = [],
          date_approved = [], index = idx + 1, recipient = ''Acme'', detail_url = [],
          loan_amount_numeric = None\<rparr>"
  "extract_loan_data (overwritten_item\<lparr>all_values := Inr []\<rparr>) idx =
     Inr \<lparr>location = [], loan_status = [], loan_amount = [],
          date_approved = [], index = idx + 1, recipient = ''Acme'', detail_url = [],
          loan_amount_numeric = None\<rparr>"
proof -
  have q: "recipient_text overwritten_item = Inr (Some ''Acme'')"
    "recipient_href overwritten_item = Inr None"
    "all_values overwritten_item = Inr [''Dallas, TX'', ''Austin, TX'']"
    by (simp_all add: overwritten_item_def)
  show "extract_loan_data overwritten_item idx =
     Inr \<lparr>location = ''Dallas, TX'', loan_status = [], loan_amount = [],
          date_approved = [], index = idx + 1, recipient = ''Acme'', detail_url = [],
          loan_amount_numeric = None\<rparr>"
    by (simp add: extract_loan_data_def q flex_details_overwritten_item then_q_def get_or_def
        stripped_values_relocated overwritten_scan initial_fields_def parse_amount_def
        strip_examples)
  show "extract_loan_data (overwritten_item\<lparr>all_values := Inr []\<rparr>) idx =
     Inr \<lparr>location = [], loan_status = [], loan_amount = [],
          date_approved = [], index = idx + 1, recipient = ''Acme'', detail_url = [],
          loan_amount_numeric = None\<rparr>"
    by (simp add: extract_loan_data_def q flex_details_overwritten_item then_q_def get_or_def
        flex_details_ignores_all_values stripped_values_def initial_fields_def parse_amount_def
        strip_examples)
qed

lemma spider_extract_overwritten_item:
  "spider_extract_loan_data join_urls now overwritten_item u idx =
     Inr \<lparr>location = ''Dallas, TX'', loan_status = [], loan_amount = [],
          date_approved = [], index = idx + 1, recipient = ''Acme'', detail_url = [],
          loan_amount_numeric = None, scraped_at = now (AtFragment idx)\<rparr>"
  "spider_extract_loan_data join_urls now (overwritten_item\<lparr>all_values := Inr []\<rparr>) u idx =
     Inr \<lparr>location = [], loan_status = [], loan_amount = [],
          date_approved = [], index = idx + 1, recipient = ''Acme'', detail_url = [],
          loan_amount_numeric = None, scraped_at = now (AtFragment idx)\<rparr>"
proof -
  have q: "recipient_text overwritten_item = Inr (Some ''Acme'')"
    "recipient_href overwritten_item = Inr None"
    "all_values overwritten_item = Inr [''Dallas, TX'', ''Austin, TX'']"
    by (simp_all add: overwritten_item_def)
  show "spider_extract_loan_data join_urls now overwritten_item u idx =
     Inr \<lparr>location = ''Dallas, TX'', loan_status = [], loan_amount = [],
          date_approved = [], index = idx + 1, recipient = ''Acme'', detail_url = [],
          loan_amount_numeric = None, scraped_at = now (AtFragment idx)\<rparr>"
    by (simp add: spider_extract_loan_data_def q flex_details_overwritten_item then_q_def
        get_or_def stripped_values_relocated overwritten_scan initial_fields_def parse_amount_def
        strip_examples)
  show "spider_extract_loan_data join_urls now (overwritten_item\<lparr>all_values := Inr []\<rparr>) u idx =
     Inr \<lparr>location = [], loan_status = [], loan_amount = [],
          date_approved = [], index = idx + 1, recipient = ''Acme'', detail_url = [],
          loan_amount_numeric = None, scraped_at = now (AtFragment idx)\<rparr>"
    by (simp add: spider_extract_loan_data_def q flex_details_overwritten_item then_q_def
        get_or_def flex_details_ignores_all_values stripped_values_def initial_fields_def
        parse_amount_def strip_examples)
qed

lemma label_field_examples:
  "label_field ''Location'' = Some Location" "label_field ''Loan Status'' = Some Loan_Status"
  by (simp_all add: label_field_def)

lemma extract_loan_data_structural:
  "extract_loan_data item idx = Inr l \<Longrightarrow> \<exists>fs. flex_details item = Inr fs"
  by (auto simp: extract_loan_data_def then_q_Inr_iff Let_def)

lemma spider_extract_loan_data_structural:
  "spider_extract_loan_data urljoin now item u idx = Inr l \<Longrightarrow> \<exists>fs. flex_details item = Inr fs"
  by (auto simp: spider_extract_loan_data_def then_q_Inr_iff Let_def)

lemma field_value_kept:
  assumes "(location fs \<noteq> [] \<longrightarrow> location l = location fs)
       \<and> (loan_status fs \<noteq> [] \<longrightarrow> loan_status l = loan_status fs)
       \<and> (loan_amount fs \<noteq> [] \<longrightarrow> loan_amount l = loan_amount fs)
       \<and> (date_approved fs \<noteq> [] \<longrightarrow> date_approved l = date_approved fs)"
      and "field_value f fs \<noteq> []"
  shows "field_value f l = field_value f fs"
  using assms by (cases f) (simp_all add: field_value_def)

lemma parser_last_block_wins:
  assumes fc: "flex_container item = Inr fc" and blocks: "concat fc = pre @ b # post"
      and lab: "label_text b = Inr lab" and val: "value_text b = Inr val"
      and names: "label_field (strip (get_or lab [])) = Some f"
      and later: "\<forall>b' \<in> set post. \<forall>lab'. label_text b' = Inr lab' \<longrightarrow>
             label_field (strip (get_or lab' [])) \<noteq> Some f"
      and filled: "strip (get_or val []) \<noteq> []"
      and l: "extract_loan_data item idx = Inr l"
  shows "\<exists>fs. flex_details item = Inr fs
            \<and> field_value f fs = strip (get_or val [])
            \<and> field_value f l = strip (get_or val [])
            \<and> (\<exists>l0. extract_loan_data (item\<lparr>all_values := Inr []\<rparr>) idx = Inr l0
                    \<and> fields_of l0 = fs)"
proof -
  from extract_loan_data_structural [OF l] obtain fs where fs: "flex_details item = Inr fs"
    by blast
  from structural_last_block [OF fc blocks fs lab val names later]
  have v: "field_value f fs = strip (get_or val [])" .
  from parser_structural_wins [OF fs l]
  have keep: "(location fs \<noteq> [] \<longrightarrow> location l = location fs)
       \<and> (loan_status fs \<noteq> [] \<longrightarrow> loan_status l = loan_status fs)
       \<and> (loan_amount fs \<noteq> [] \<longrightarrow> loan_amount l = loan_amount fs)
       \<and> (date_approved fs \<noteq> [] \<longrightarrow> date_approved l = date_approved fs)"
    and l0: "\<exists>l0. extract_loan_data (item\<lparr>all_values := Inr []\<rparr>) idx = Inr l0 \<and> fields_of l0 = fs"
    by blast+
  from field_value_kept [OF keep, of f] v filled
  have "field_value f l = strip (get_or val [])" by simp
  with fs v l0 show ?thesis by blast
qed

lemma spider_last_block_wins:
  assumes fc: "flex_container item = Inr fc" and blocks: "concat fc = pre @ b # post"
      and lab: "label_text b = Inr lab" and val: "value_text b = Inr val"
      and names: "label_field (strip (get_or lab [])) = Some f"
      and later: "\<forall>b' \<in> set post. \<forall>lab'. label_text b' = Inr lab' \<longrightarrow>
             label_field (strip (get_or lab' [])) \<noteq> Some f"
      and filled: "strip (get_or val []) \<noteq> []"
      and l: "spider_extract_loan_data urljoin now item u idx = Inr l"
  shows "\<exists>fs. flex_details item = Inr fs
            \<and> field_value f fs = strip (get_or val [])
            \<and> field_value f l = strip (get_or val [])
            \<and> (\<exists>l0. spider_extract_loan_data urljoin now (item\<lparr>all_values := Inr []\<rparr>) u idx
                       = Inr l0
                    \<and> fields_of l0 = fs)"
proof -
  from spider_extract_loan_data_structural [OF l] obtain fs where fs: "flex_details item = Inr fs"
    by blast
  from structural_last_block [OF fc blocks fs lab val names later]
  have v: "field_value f fs = strip (get_or val [])" .
  from spider_structural_wins [OF fs l]
  have keep: "(location fs \<noteq> [] \<longrightarrow> location l = location fs)
       \<and> (loan_status fs \<noteq> [] \<longrightarrow> loan_status l = loan_status fs)
       \<and> (loan_amount fs \<noteq> [] \<longrightarrow> loan_amount l = loan_amount fs)
       \<and> (date_approved fs \<noteq> [] \<longrightarrow> date_approved l = date_approved fs)"
    and l0: "\<exists>l0. spider_extract_loan_data urljoin now (item\<lparr>all_values := Inr []\<rparr>) u idx = Inr l0
               \<and> fields_of l0 = fs"
    by blast+
  from field_value_kept [OF keep, of f] v filled
  have "field_value f l = strip (get_or val [])" by simp
  with fs v l0 show ?thesis by blast
qed

text \<open>
  Claim C1, as amended. For every fragment and each of the four fields that have both a
  structural lookup and a heuristic recognizer: the structural result of the field is the
  value of the last detail block whose label names the field (a later block overwrites an
  earlier one). When that value is non-empty it is the field's extracted value, whatever
  the fallback scan sees, and the extraction with nothing for the scan to read
  (\<open>all_values\<close> empty) returns exactly the structural results, so the same value for the
  field. First the parser, then the spider.
\<close>

theorem last_structural_result_wins:
  "(flex_container item = Inr fc \<and> concat fc = pre @ b # post
      \<and> label_text b = Inr lab \<and> value_text b = Inr val
      \<and> label_field (strip (get_or lab [])) = Some f
      \<and> (\<forall>b' \<in> set post. \<forall>lab'. label_text b' = Inr lab' \<longrightarrow>
            label_field (strip (get_or lab' [])) \<noteq> Some f)
      \<and> strip (get_or val []) \<noteq> []
      \<and> extract_loan_data item idx = Inr l \<longrightarrow>
      (\<exists>fs. flex_details item = Inr fs
          \<and> field_value f fs = strip (get_or val [])
          \<and> field_value f l = strip (get_or val [])
          \<and> (\<exists>l0. extract_loan_data (item\<lparr>all_values := Inr []\<rparr>) idx = Inr l0
                  \<and> fields_of l0 = fs)))
   \<and> (flex_container item = Inr fc \<and> concat fc = pre @ b # post
      \<and> label_text b = Inr lab \<and> value_text b = Inr val
      \<and> label_field (strip (get_or lab [])) = Some f
      \<and> (\<forall>b' \<in> set post. \<forall>lab'. label_text b' = Inr lab' \<longrightarrow>
            label_field (strip (get_or lab' [])) \<noteq> Some f)
      \<and> strip (get_or val []) \<noteq> []
      \<and> spider_extract_loan_data urljoin now item u idx = Inr sl \<longrightarrow>
      (\<exists>fs. flex_details item = Inr fs
          \<and> field_value f fs = strip (get_or val [])
          \<and> field_value f sl = strip (get_or val [])
          \<and> (\<exists>l0. spider_extract_loan_data urljoin now (item\<lparr>all_values := Inr []\<rparr>) u idx
                     = Inr l0
                  \<and> fields_of l0 = fs)))"
proof (intro conjI impI)
  assume a: "flex_container item = Inr fc \<and> concat fc = pre @ b # post
      \<and> label_text b = Inr lab \<and> value_text b = Inr val
      \<and> label_field (strip (get_or lab [])) = Some f
      \<and> (\<forall>b' \<in> set post. \<forall>lab'. label_text b' = Inr lab' \<longrightarrow>
            label_field (strip (get_or lab' [])) \<noteq> Some f)
      \<and> strip (get_or val []) \<noteq> []
      \<and> extract_loan_data item idx = Inr l"
  show "\<exists>fs. flex_details item = Inr fs
          \<and> field_value f fs = strip (get_or val [])
          \<and> field_value f l = strip (get_or val [])
          \<and> (\<exists>l0. extract_loan_data (item\<lparr>all_values := Inr []\<rparr>) idx = Inr l0
                  \<and> fields_of l0 = fs)"
    by (rule parser_last_block_wins [of item fc pre b post lab val f idx l]) (simp_all add: a)
next
  assume a: "flex_container item = Inr fc \<and> concat fc = pre @ b # post
      \<and> label_text b = Inr lab \<and> value_text b = Inr val
      \<and> label_field (strip (get_or lab [])) = Some f
      \<and> (\<forall>b' \<in> set post. \<forall>lab'. label_text b' = Inr lab' \<longrightarrow>
            label_field (strip (get_or lab' [])) \<noteq> Some f)
      \<and> strip (get_or val []) \<noteq> []
      \<and> spider_extract_loan_data urljoin now item u idx = Inr sl"
  show "\<exists>fs. flex_details item = Inr fs
          \<and> field_value f fs = strip (get_or val [])
          \<and> field_value f sl = strip (get_or val [])
          \<and> (\<exists>l0. spider_extract_loan_data urljoin now (item\<lparr>all_values := Inr []\<rparr>) u idx
                     = Inr l0
                  \<and> fields_of l0 = fs)"
    by (rule spider_last_block_wins [of item fc pre b post lab val f urljoin now u idx sl])
       (simp_all add: a)
qed

theorem last_structural_result_wins_witness:
  "map_sum id location (extract_loan_data relocated_item 0) = Inr ''Waco, TX''
   \<and> map_sum id location (extract_loan_data (relocated_item\<lparr>all_values := Inr []\<rparr>) 0)
       = Inr ''Waco, TX''
   \<and> map_sum id location (spider_extract_loan_data join_urls (\<lambda>m. ''t'') relocated_item ''u'' 0)
       = Inr ''Waco, TX''
   \<and> map_sum id location
       (spider_extract_loan_data join_urls (\<lambda>m. ''t'') (relocated_item\<lparr>all_values := Inr []\<rparr>) ''u'' 0)
       = Inr ''Waco, TX''"
  using last_structural_result_wins
    [of relocated_item
        "[[labelled ''Location'' ''Austin, TX'', labelled ''Location'' ''Waco, TX'',
           labelled ''Loan Status'' ''Forgiven'']]"
        "[labelled ''Location'' ''Austin, TX'']"
        "labelled ''Location'' ''Waco, TX''"
        "[labelled ''Loan Status'' ''Forgiven'']"
        "Some ''Location''" "Some ''Waco, TX''" Location
        0
        "\<lparr>location = ''Waco, TX'', loan_status = ''Forgiven'', loan_amount = ''$1,000'',
          date_approved = [], index = 1, recipient = ''Acme'', detail_url = [],
          loan_amount_numeric = Some (Finite 1000)\<rparr>"
        join_urls "\<lambda>m. ''t''" "''u''"
        "\<lparr>location = ''Waco, TX'', loan_status = ''Forgiven'', loan_amount = [],
          date_approved = [], index = 1, recipient = ''Acme'', detail_url = [],
          loan_amount_numeric = None, scraped_at = ''t''\<rparr>"]
  by (auto simp: extract_relocated_item spider_extract_relocated_item
      flex_details_relocated_item relocated_item_def [THEN arg_cong, of flex_container]
      labelled_def get_or_def strip_more_examples strip_relocated_examples label_field_examples
      field_value_def fields_of_def)

text \<open>
  The claim as written takes the first non-empty structural result. The block loop assigns
  without looking at what the variable holds: a block labelled as the location with no
  value text, coming after one with the value \<^verbatim>\<open>Austin, TX\<close>, leaves the structural
  location empty, the scan then takes the first value text that looks like a location, and
  with nothing for the scan to read the location stays empty. With two labelled values the
  second is the structural result.
\<close>

theorem later_block_overwrites:
  "map_sum id location (detail_block (labelled ''Location'' ''Austin, TX'') initial_fields)
     = Inr ''Austin, TX''
   \<and> map_sum id location (flex_details overwritten_item) = Inr []
   \<and> map_sum id location (extract_loan_data overwritten_item 0) = Inr ''Dallas, TX''
   \<and> map_sum id location (extract_loan_data (overwritten_item\<lparr>all_values := Inr []\<rparr>) 0) = Inr []
   \<and> map_sum id location
       (spider_extract_loan_data join_urls (\<lambda>m. ''t'') overwritten_item ''u'' 0)
       = Inr ''Dallas, TX''
   \<and> map_sum id location
       (spider_extract_loan_data join_urls (\<lambda>m. ''t'') (overwritten_item\<lparr>all_values := Inr []\<rparr>)
          ''u'' 0)
       = Inr []
   \<and> map_sum id location (flex_details relocated_item) = Inr ''Waco, TX''"
  by (simp add: extract_overwritten_item spider_extract_overwritten_item
      flex_details_overwritten_item flex_details_relocated_item initial_fields_def
      detail_block_def labelled_def then_q_def get_or_def strip_more_examples)

subsection \<open>The location recognizer and the guard of the scan\<close>

lemma split_without_separator: "c \<notin> set s \<Longrightarrow> split s c = [s]"
  by (induction s) auto

lemma py_in_single: "py_in [c] s \<longleftrightarrow> c \<in> set s"
proof (induction s)
  case Nil
  show ?case by simp
next
  case (Cons a s)
  have "startswith (a # s) [c] \<longleftrightarrow> a = c" by simp
  with Cons show ?case by auto
qed

lemma two_segments_have_separator: "length (split s c) = 2 \<Longrightarrow> py_in [c] s"
proof -
  assume two: "length (split s c) = 2"
  have "c \<in> set s"
  proof (rule ccontr)
    assume "c \<notin> set s"
    then have "split s c = [s]" by (rule split_without_separator)
    with two show False by simp
  qed
  then show ?thesis by (simp add: py_in_single)
qed

lemma parser_location_recognizer:
  "location fs = [] \<Longrightarrow>
   location (alternative_step val fs) =
     (if length (split val (CHR '','')) = 2 \<and> length (strip (split val (CHR '','') ! 1)) = 2
      then val else [])"
  using two_segments_have_separator [of val "CHR '',''"]
  by (auto simp: alternative_step_def Let_def)

lemma spider_location_recognizer:
  "location fs = [] \<Longrightarrow>
   location (spider_alternative_step val fs) =
     (if length (split val (CHR '','')) = 2 then val else [])"
  using two_segments_have_separator [of val "CHR '',''"]
  by (auto simp: spider_alternative_step_def)

lemma split_examples:
  "split ''Austin, TX'' (CHR '','') = [''Austin'', '' TX'']"
  "split ''Some Place, Texas'' (CHR '','') = [''Some Place'', '' Texas'']"
  by simp_all

text \<open>
  Claim C6. While no location is set, the parser's fallback takes a value as the location
  exactly when it splits at the comma into two segments of which the second, stripped, has
  length 2: it takes \<^verbatim>\<open>"Austin, TX"\<close> and leaves \<^verbatim>\<open>"Some Place, Texas"\<close>. The spider's
  fallback has no length test: it takes every value of two segments, \<^verbatim>\<open>"Some Place, Texas"\<close>
  included.
\<close>

theorem location_recognizer:
  "(location fs = [] \<longrightarrow>
      location (alternative_step val fs) =
        (if length (split val (CHR '','')) = 2 \<and> length (strip (split val (CHR '','') ! 1)) = 2
         then val else []))
   \<and> (location fs = [] \<longrightarrow>
      location (spider_alternative_step val fs) =
        (if length (split val (CHR '','')) = 2 then val else []))
   \<and> location (alternative_step ''Austin, TX'' initial_fields) = ''Austin, TX''
   \<and> location (alternative_step ''Some Place, Texas'' initial_fields) = []
   \<and> location (spider_alternative_step ''Austin, TX'' initial_fields) = ''Austin, TX''
   \<and> location (spider_alternative_step ''Some Place, Texas'' initial_fields) = ''Some Place, Texas''"
proof -
  have empty: "location initial_fields = []" by (simp add: initial_fields_def)
  show ?thesis
    using parser_location_recognizer [of fs val] spider_location_recognizer [of fs val]
      parser_location_recognizer [OF empty, of "''Austin, TX''"]
      parser_location_recognizer [OF empty, of "''Some Place, Texas''"]
      spider_location_recognizer [OF empty, of "''Austin, TX''"]
      spider_location_recognizer [OF empty, of "''Some Place, Texas''"]
    by (simp add: split_examples strip_more_examples)
qed

theorem location_recognizer_witness:
  "location (alternative_step ''Some Place, Texas''
      \<lparr>location = [], loan_status = [], loan_amount = [], date_approved = []\<rparr>) = []
   \<and> location (spider_alternative_step ''Some Place, Texas''
      \<lparr>location = [], loan_status = [], loan_amount = [], date_approved = []\<rparr>)
      = ''Some Place, Texas''"
  using location_recognizer
    [of "\<lparr>location = [], loan_status = [], loan_amount = [], date_approved = []\<rparr>"
        "''Some Place, Texas''"]
  by (simp add: split_examples strip_more_examples)

text \<open>
  Claim C2, as amended. The fallback scan is guarded per fragment, not per field. In the
  parser it runs when the structural location or the structural amount is empty; in the
  spider when both are. Where the guard is closed the extraction returns the structural
  fields and never reads \<open>all_values\<close>; where it is open the fields are those the scan leaves,
  and an exception of the \<open>all_values\<close> query is the exception of the extraction.
\<close>

theorem fallback_scan_gate:
  "(recipient_text item = Inr rt \<and> recipient_href item = Inr rh \<and> flex_details item = Inr fs
      \<longrightarrow>
      (location fs \<noteq> [] \<and> loan_amount fs \<noteq> [] \<longrightarrow>
         (\<exists>l. extract_loan_data item idx = Inr l \<and> fields_of l = fs))
    \<and> ((location fs = [] \<or> loan_amount fs = []) \<and> all_values item = Inr vs \<longrightarrow>
         (\<exists>l. extract_loan_data item idx = Inr l
             \<and> fields_of l = fold alternative_step (stripped_values vs) fs))
    \<and> ((location fs = [] \<or> loan_amount fs = []) \<and> all_values item = Inl e \<longrightarrow>
         extract_loan_data item idx = Inl e))
   \<and> (recipient_text item = Inr rt \<and> recipient_href item = Inr rh
       \<and> (get_or rh [] = [] \<or> urljoin u (get_or rh []) = Inr joined)
       \<and> flex_details item = Inr fs \<longrightarrow>
      (location fs \<noteq> [] \<or> loan_amount fs \<noteq> [] \<longrightarrow>
         (\<exists>l. spider_extract_loan_data urljoin now item u idx = Inr l \<and> fields_of l = fs))
    \<and> (location fs = [] \<and> loan_amount fs = [] \<and> all_values item = Inr vs \<longrightarrow>
         (\<exists>l. spider_extract_loan_data urljoin now item u idx = Inr l
             \<and> fields_of l = fold spider_alternative_step (stripped_values vs) fs))
    \<and> (location fs = [] \<and> loan_amount fs = [] \<and> all_values item = Inl e \<longrightarrow>
         spider_extract_loan_data urljoin now item u idx = Inl e))"
proof -
  have parser:
    "(location fs \<noteq> [] \<and> loan_amount fs \<noteq> [] \<longrightarrow>
         (\<exists>l. extract_loan_data item idx = Inr l \<and> fields_of l = fs))
    \<and> ((location fs = [] \<or> loan_amount fs = []) \<and> all_values item = Inr vs \<longrightarrow>
         (\<exists>l. extract_loan_data item idx = Inr l
             \<and> fields_of l = fold alternative_step (stripped_values vs) fs))
    \<and> ((location fs = [] \<or> loan_amount fs = []) \<and> all_values item = Inl e \<longrightarrow>
         extract_loan_data item idx = Inl e)"
    if "recipient_text item = Inr rt" "recipient_href item = Inr rh" "flex_details item = Inr fs"
    using extract_loan_data_gate(1) [OF that] extract_loan_data_gate(2) [OF that]
      extract_loan_data_gate(3) [OF that]
    by blast
  have spider:
    "(location fs \<noteq> [] \<or> loan_amount fs \<noteq> [] \<longrightarrow>
         (\<exists>l. spider_extract_loan_data urljoin now item u idx = Inr l \<and> fields_of l = fs))
    \<and> (location fs = [] \<and> loan_amount fs = [] \<and> all_values item = Inr vs \<longrightarrow>
         (\<exists>l. spider_extract_loan_data urljoin now item u idx = Inr l
             \<and> fields_of l = fold spider_alternative_step (stripped_values vs) fs))
    \<and> (location fs = [] \<and> loan_amount fs = [] \<and> all_values item = Inl e \<longrightarrow>
         spider_extract_loan_data urljoin now item u idx = Inl e)"
    if "recipient_text item = Inr rt" "recipient_href item = Inr rh"
       "get_or rh [] = [] \<or> urljoin u (get_or rh []) = Inr joined" "flex_details item = Inr fs"
    using spider_extract_loan_data_gate(1) [where urljoin = urljoin and u = u, OF that]
      spider_extract_loan_data_gate(2) [where urljoin = urljoin and u = u, OF that]
      spider_extract_loan_data_gate(3) [where urljoin = urljoin and u = u, OF that]
    by blast
  from parser spider show ?thesis by blast
qed

theorem fallback_scan_gate_witness:
  "(\<exists>l. extract_loan_data priced_item 0 = Inr l
       \<and> fields_of l = \<lparr>location = ''Austin, TX'', loan_status = [], loan_amount = ''$1,000'',
                         date_approved = []\<rparr>)
   \<and> (\<exists>l. extract_loan_data located_item 0 = Inr l
       \<and> fields_of l = \<lparr>location = ''Austin, TX'', loan_status = ''Forgiven'',
                         loan_amount = ''$1,000'', date_approved = []\<rparr>)
   \<and> (\<exists>l. spider_extract_loan_data join_urls (\<lambda>m. ''t'') located_item ''u'' 0 = Inr l
       \<and> fields_of l = \<lparr>location = ''Austin, TX'', loan_status = [], loan_amount = [],
                         date_approved = []\<rparr>)"
proof -
  have q: "recipient_text priced_item = Inr (Some ''Acme'')" "recipient_href priced_item = Inr None"
    "recipient_text located_item = Inr (Some ''Acme'')" "recipient_href located_item = Inr None"
    "all_values located_item = Inr [''Austin, TX'', ''$1,000'', ''Forgiven'']"
    by (simp_all add: priced_item_def located_item_def)
  show ?thesis
    using fallback_scan_gate
      [of priced_item "Some ''Acme''" None
          "\<lparr>location = ''Austin, TX'', loan_status = [], loan_amount = ''$1,000'', date_approved = []\<rparr>"
          0 "[]" "Exception []" join_urls "''u''" "[]" "\<lambda>m. ''t''"]
      fallback_scan_gate
      [of located_item "Some ''Acme''" None
          "\<lparr>location = ''Austin, TX'', loan_status = [], loan_amount = [], date_approved = []\<rparr>"
          0 "[''Austin, TX'', ''$1,000'', ''Forgiven'']" "Exception []" join_urls "''u''" "[]"
          "\<lambda>m. ''t''"]
    by (simp add: q flex_details_priced_item flex_details_located_item get_or_def
        stripped_values_example scan_example)
qed

text \<open>
  The claim as written has the scan run for any field whose structural result is empty. A
  fragment with labelled location and amount keeps an empty status in the parser although
  the scan would have recognised \<^verbatim>\<open>"Forgiven"\<close>; a fragment with a labelled location keeps
  an empty amount in the spider, where the parser's scan fills it.
\<close>

theorem status_left_empty_behind_gate:
  "flex_details priced_item =
     Inr \<lparr>location = ''Austin, TX'', loan_status = [], loan_amount = ''$1,000'', date_approved = []\<rparr>
   \<and> all_values priced_item = Inr [''Austin, TX'', ''$1,000'', ''Forgiven'']
   \<and> loan_status (alternative_step ''Forgiven''
        \<lparr>location = ''Austin, TX'', loan_status = [], loan_amount = ''$1,000'', date_approved = []\<rparr>)
       = ''Forgiven''
   \<and> map_sum id loan_status (extract_loan_data priced_item 0) = Inr []
   \<and> flex_details located_item =
     Inr \<lparr>location = ''Austin, TX'', loan_status = [], loan_amount = [], date_approved = []\<rparr>
   \<and> all_values located_item = Inr [''Austin, TX'', ''$1,000'', ''Forgiven'']
   \<and> map_sum id loan_amount (extract_loan_data located_item 0) = Inr ''$1,000''
   \<and> map_sum id loan_amount
        (spider_extract_loan_data join_urls (\<lambda>m. ''t'') located_item ''u'' 0) = Inr []"
  by (simp add: flex_details_priced_item flex_details_located_item extract_priced_item
      extract_located_item spider_extract_located_item)
     (simp add: priced_item_def located_item_def alternative_step_def status_keywords_def)

end
